theory Spec2Isabelle
  imports Complex_Main "HOL-Library.Log_Nat"
begin

section \<open>Data model\<close>

text \<open>
  Pixel coordinates are the integers the window manager reports; every rectangle the
  snap zones, the resize propagation and the redistribution build from them is integral
  again (all divisions are wrapped in \<^verbatim>\<open>Math.floor\<close>), so a rectangle is a record of
  four \<^typ>\<open>int\<close>. The insertion planner computes with doubles; its rectangles are a
  record of their own. Window identifiers (stable sequence numbers) are natural numbers.
\<close>

record Rect =
  xpos :: int
  ypos :: int
  width :: int
  height :: int

record Neighbors =
  nleft :: "nat list"
  nright :: "nat list"
  ntop :: "nat list"
  nbottom :: "nat list"

record WindowState =
  wid :: nat
  rect :: Rect
  originalRect :: "Rect option"
  zone :: string
  isTiled :: bool
  neighbors :: Neighbors

text \<open>The argument of \<^verbatim>\<open>setWindow\<close>: every field may be missing.\<close>

record PartialState =
  p_rect :: "Rect option"
  p_originalRect :: "Rect option"
  p_zone :: "string option"
  p_isTiled :: "bool option"
  p_neighbors :: "Neighbors option"

text \<open>
  The store: the \<^verbatim>\<open>Map\<close> of window states in insertion order (the list holds one
  entry per key, keyed by \<^const>\<open>wid\<close>), and the number of change notifications sent.
\<close>

record StateStore =
  windows :: "WindowState list"
  changes :: nat

subsection \<open>Configuration constants\<close>

definition INNER_GAP :: int where "INNER_GAP = 8"
definition NEIGHBOR_OVERLAP_MIN :: int where "NEIGHBOR_OVERLAP_MIN = 50"
definition EDGE_TOLERANCE :: int where "EDGE_TOLERANCE = 10"
definition MIN_WINDOW_WIDTH :: int where "MIN_WINDOW_WIDTH = 200"
definition MIN_WINDOW_HEIGHT :: int where "MIN_WINDOW_HEIGHT = 100"

section \<open>Geometry\<close>

definition hasVerticalOverlap :: "Rect \<Rightarrow> Rect \<Rightarrow> int \<Rightarrow> bool" where
  "hasVerticalOverlap a b minOverlap =
     (let aTop = ypos a; aBottom = ypos a + height a;
          bTop = ypos b; bBottom = ypos b + height b;
          overlapStart = max aTop bTop;
          overlapEnd = min aBottom bBottom;
          overlap = overlapEnd - overlapStart
      in overlap \<ge> minOverlap)"

definition hasHorizontalOverlap :: "Rect \<Rightarrow> Rect \<Rightarrow> int \<Rightarrow> bool" where
  "hasHorizontalOverlap a b minOverlap =
     (let aLeft = xpos a; aRight = xpos a + width a;
          bLeft = xpos b; bRight = xpos b + width b;
          overlapStart = max aLeft bLeft;
          overlapEnd = min aRight bRight;
          overlap = overlapEnd - overlapStart
      in overlap \<ge> minOverlap)"

definition getRightEdge :: "Rect \<Rightarrow> int" where
  "getRightEdge r = xpos r + width r"

definition getBottomEdge :: "Rect \<Rightarrow> int" where
  "getBottomEdge r = ypos r + height r"

text \<open>\<^verbatim>\<open>Math.floor(a / 2)\<close> on integers is \<open>a div 2\<close>: \<open>div\<close> on \<^typ>\<open>int\<close> rounds down.\<close>

definition getLeftHalfRect :: "Rect \<Rightarrow> int \<Rightarrow> Rect" where
  "getLeftHalfRect workArea gap =
     \<lparr>xpos = xpos workArea + gap,
      ypos = ypos workArea + gap,
      width = (width workArea - gap * 3) div 2,
      height = height workArea - gap * 2\<rparr>"

definition getRightHalfRect :: "Rect \<Rightarrow> int \<Rightarrow> Rect" where
  "getRightHalfRect workArea gap =
     (let halfWidth = (width workArea - gap * 3) div 2
      in \<lparr>xpos = xpos workArea + width workArea - halfWidth - gap,
          ypos = ypos workArea + gap,
          width = halfWidth,
          height = height workArea - gap * 2\<rparr>)"

definition getMaximizedRect :: "Rect \<Rightarrow> int \<Rightarrow> Rect" where
  "getMaximizedRect workArea gap =
     \<lparr>xpos = xpos workArea + gap,
      ypos = ypos workArea + gap,
      width = width workArea - gap * 2,
      height = height workArea - gap * 2\<rparr>"

section \<open>LayoutEngine\<close>

definition getQuadrant :: "Rect \<Rightarrow> string \<Rightarrow> string \<Rightarrow> int \<Rightarrow> Rect" where
  "getQuadrant workArea horizontal vertical gap =
     (let halfWidth = (width workArea - gap * 3) div 2;
          halfHeight = (height workArea - gap * 3) div 2;
          x = (if horizontal = ''left'' then xpos workArea + gap
               else xpos workArea + width workArea - halfWidth - gap);
          y = (if vertical = ''top'' then ypos workArea + gap
               else ypos workArea + height workArea - halfHeight - gap)
      in \<lparr>xpos = x, ypos = y, width = halfWidth, height = halfHeight\<rparr>)"

text \<open>
  \<^verbatim>\<open>calculateSnapRect(zone, monitorIndex)\<close>: the work area of the monitor is read from
  the window manager, so it is a parameter here; the gap is \<^const>\<open>INNER_GAP\<close>. The default
  branch also logs a warning.
\<close>

definition calculateSnapRect :: "string \<Rightarrow> Rect \<Rightarrow> Rect" where
  "calculateSnapRect z workArea =
     (let gap = INNER_GAP in
      if z = ''left'' then getLeftHalfRect workArea gap
      else if z = ''right'' then getRightHalfRect workArea gap
      else if z = ''top'' \<or> z = ''maximize'' then getMaximizedRect workArea gap
      else if z = ''left-top'' then getQuadrant workArea ''left'' ''top'' gap
      else if z = ''right-top'' then getQuadrant workArea ''right'' ''top'' gap
      else if z = ''left-bottom'' then getQuadrant workArea ''left'' ''bottom'' gap
      else if z = ''right-bottom'' then getQuadrant workArea ''right'' ''bottom'' gap
      else getMaximizedRect workArea gap)"

section \<open>StateStore\<close>

definition zeroRect :: Rect where
  "zeroRect = \<lparr>xpos = 0, ypos = 0, width = 0, height = 0\<rparr>"

definition emptyNeighbors :: Neighbors where
  "emptyNeighbors = \<lparr>nleft = [], nright = [], ntop = [], nbottom = []\<rparr>"

definition emptyStore :: StateStore where
  "emptyStore = \<lparr>windows = [], changes = 0\<rparr>"

definition getWindow :: "StateStore \<Rightarrow> nat \<Rightarrow> WindowState option" where
  "getWindow s i = find (\<lambda>w. wid w = i) (windows s)"

text \<open>\<^verbatim>\<open>Map.set\<close>: an existing key keeps its place, a new key goes to the end.\<close>

fun mapSet :: "WindowState \<Rightarrow> WindowState list \<Rightarrow> WindowState list" where
  "mapSet w [] = [w]"
| "mapSet w (v # vs) = (if wid v = wid w then w # vs else v # mapSet w vs)"

definition notifyChange :: "StateStore \<Rightarrow> StateStore" where
  "notifyChange s = s\<lparr>changes := Suc (changes s)\<rparr>"

definition setWindow :: "nat \<Rightarrow> PartialState \<Rightarrow> StateStore \<Rightarrow> StateStore" where
  "setWindow i state s =
     (let existing = getWindow s i;
          windowState =
            \<lparr>wid = i,
             rect = (case p_rect state of Some r \<Rightarrow> r
                     | None \<Rightarrow> (case existing of Some e \<Rightarrow> rect e | None \<Rightarrow> zeroRect)),
             originalRect = (case p_originalRect state of Some r \<Rightarrow> Some r
                     | None \<Rightarrow> (case existing of Some e \<Rightarrow> originalRect e | None \<Rightarrow> None)),
             zone = (case p_zone state of Some z \<Rightarrow> z
                     | None \<Rightarrow> (case existing of Some e \<Rightarrow> zone e | None \<Rightarrow> ''none'')),
             isTiled = (case p_isTiled state of Some t \<Rightarrow> t
                     | None \<Rightarrow> (case existing of Some e \<Rightarrow> isTiled e | None \<Rightarrow> False)),
             neighbors = (case p_neighbors state of Some n \<Rightarrow> n
                     | None \<Rightarrow> (case existing of Some e \<Rightarrow> neighbors e
                                 | None \<Rightarrow> emptyNeighbors))\<rparr>
      in notifyChange (s\<lparr>windows := mapSet windowState (windows s)\<rparr>))"

text \<open>The partial states the callers pass.\<close>

definition noFields :: PartialState where
  "noFields = \<lparr>p_rect = None, p_originalRect = None, p_zone = None,
               p_isTiled = None, p_neighbors = None\<rparr>"

definition onlyRect :: "Rect \<Rightarrow> PartialState" where
  "onlyRect r = noFields\<lparr>p_rect := Some r\<rparr>"

definition removeFromNeighbors :: "nat \<Rightarrow> WindowState list \<Rightarrow> WindowState list" where
  "removeFromNeighbors removedId ws =
     map (\<lambda>w. w\<lparr>neighbors :=
            \<lparr>nleft = filter (\<lambda>i. i \<noteq> removedId) (nleft (neighbors w)),
             nright = filter (\<lambda>i. i \<noteq> removedId) (nright (neighbors w)),
             ntop = filter (\<lambda>i. i \<noteq> removedId) (ntop (neighbors w)),
             nbottom = filter (\<lambda>i. i \<noteq> removedId) (nbottom (neighbors w))\<rparr>\<rparr>) ws"

text \<open>\<^verbatim>\<open>Map.delete\<close> returns whether the key was present.\<close>

definition removeWindow :: "nat \<Rightarrow> StateStore \<Rightarrow> StateStore" where
  "removeWindow i s =
     (if getWindow s i \<noteq> None
      then notifyChange
             (s\<lparr>windows := removeFromNeighbors i (filter (\<lambda>w. wid w \<noteq> i) (windows s))\<rparr>)
      else s)"

definition getTiledWindows :: "StateStore \<Rightarrow> WindowState list" where
  "getTiledWindows s = filter isTiled (windows s)"

text \<open>One iteration of the loop of \<^verbatim>\<open>_findNeighbors\<close>: four independent tests.\<close>

definition findNeighborsStep :: "WindowState \<Rightarrow> Neighbors \<Rightarrow> WindowState \<Rightarrow> Neighbors" where
  "findNeighborsStep window nb other =
     (if wid other = wid window then nb
      else
        let tolerance = EDGE_TOLERANCE; minOverlap = NEIGHBOR_OVERLAP_MIN;
            wRect = rect window; oRect = rect other;
            nb1 = (if \<bar>getRightEdge wRect - xpos oRect\<bar> \<le> tolerance
                      \<and> hasVerticalOverlap wRect oRect minOverlap
                   then nb\<lparr>nright := nright nb @ [wid other]\<rparr> else nb);
            nb2 = (if \<bar>xpos wRect - getRightEdge oRect\<bar> \<le> tolerance
                      \<and> hasVerticalOverlap wRect oRect minOverlap
                   then nb1\<lparr>nleft := nleft nb1 @ [wid other]\<rparr> else nb1);
            nb3 = (if \<bar>getBottomEdge wRect - ypos oRect\<bar> \<le> tolerance
                      \<and> hasHorizontalOverlap wRect oRect minOverlap
                   then nb2\<lparr>nbottom := nbottom nb2 @ [wid other]\<rparr> else nb2);
            nb4 = (if \<bar>ypos wRect - getBottomEdge oRect\<bar> \<le> tolerance
                      \<and> hasHorizontalOverlap wRect oRect minOverlap
                   then nb3\<lparr>ntop := ntop nb3 @ [wid other]\<rparr> else nb3)
        in nb4)"

definition findNeighbors :: "WindowState \<Rightarrow> WindowState list \<Rightarrow> Neighbors" where
  "findNeighbors window allWindows = foldl (findNeighborsStep window) emptyNeighbors allWindows"

text \<open>
  \<^verbatim>\<open>recalculateNeighbors\<close> assigns a fresh neighbor record to every tiled window; the
  computation reads only ids and rectangles, which the loop does not change.
\<close>

definition recalculateNeighbors :: "StateStore \<Rightarrow> StateStore" where
  "recalculateNeighbors s =
     (let tiledWindows = getTiledWindows s
      in s\<lparr>windows := map (\<lambda>w. if isTiled w
                                then w\<lparr>neighbors := findNeighbors w tiledWindows\<rparr>
                                else w) (windows s)\<rparr>)"

text \<open>The four directions of \<^verbatim>\<open>getNeighbors\<close>.\<close>

datatype Direction = DLeft | DRight | DTop | DBottom

fun neighborIds :: "Direction \<Rightarrow> Neighbors \<Rightarrow> nat list" where
  "neighborIds DLeft nb = nleft nb"
| "neighborIds DRight nb = nright nb"
| "neighborIds DTop nb = ntop nb"
| "neighborIds DBottom nb = nbottom nb"

definition getNeighbors :: "StateStore \<Rightarrow> nat \<Rightarrow> Direction \<Rightarrow> WindowState list" where
  "getNeighbors s windowId direction =
     (case getWindow s windowId of
        None \<Rightarrow> []
      | Some window \<Rightarrow> List.map_filter (getWindow s) (neighborIds direction (neighbors window)))"

text \<open>The representation invariant of the store: one entry per key.\<close>

definition wellFormed :: "StateStore \<Rightarrow> bool" where
  "wellFormed s = distinct (map wid (windows s))"

section \<open>The desktop\<close>

text \<open>
  What the program reads from the window manager: the windows of the active workspace
  (\<^verbatim>\<open>GnomeCompat.getWorkspaceWindows\<close>) and the windows the tracker holds, both as lists
  of stable sequence numbers. Every \<^verbatim>\<open>GnomeCompat.moveResizeWindow(window, rect)\<close> call
  is recorded, in order, in a log of requests.
\<close>

record Desktop =
  workspaceWindows :: "nat list"
  trackedWindows :: "nat list"

type_synonym MoveLog = "(nat \<times> Rect) list"

text \<open>\<^verbatim>\<open>ResizeHandler._getMetaWindow\<close>: found among the workspace windows, or null.\<close>

definition getMetaWindow :: "Desktop \<Rightarrow> nat \<Rightarrow> bool" where
  "getMetaWindow env windowId = (windowId \<in> set (workspaceWindows env))"

text \<open>\<^verbatim>\<open>TileManager._findMetaWindow\<close>: the tracker first, then the workspace windows.\<close>

definition findMetaWindow :: "Desktop \<Rightarrow> nat \<Rightarrow> bool" where
  "findMetaWindow env windowId =
     (windowId \<in> set (trackedWindows env) \<or> windowId \<in> set (workspaceWindows env))"

section \<open>ResizeHandler\<close>

datatype GrabOp =
  MOVING | RESIZING_NW | RESIZING_N | RESIZING_NE | RESIZING_E
  | RESIZING_SE | RESIZING_S | RESIZING_SW | RESIZING_W | OTHER_OP

record ResizeEdges =
  e_left :: bool
  e_right :: bool
  e_top :: bool
  e_bottom :: bool

record ResizeHandler =
  resizingWindow :: "nat option"
  resizingWindowId :: "nat option"
  lastRect :: "Rect option"
  resizeDirection :: "GrabOp option"

definition getResizeEdges :: "GrabOp option \<Rightarrow> ResizeEdges" where
  "getResizeEdges grabOp =
     \<lparr>e_left = (grabOp \<in> {Some RESIZING_NW, Some RESIZING_W, Some RESIZING_SW}),
      e_right = (grabOp \<in> {Some RESIZING_NE, Some RESIZING_E, Some RESIZING_SE}),
      e_top = (grabOp \<in> {Some RESIZING_NW, Some RESIZING_N, Some RESIZING_NE}),
      e_bottom = (grabOp \<in> {Some RESIZING_SW, Some RESIZING_S, Some RESIZING_SE})\<rparr>"

text \<open>
  The body of the loop of \<^verbatim>\<open>_adjustRightNeighbors\<close> for one neighbor. The adjusting
  functions run only from \<^verbatim>\<open>_handleResizeUpdate\<close>, behind its guard, so the resizing
  window \<open>resizing\<close>, its id \<open>resizingId\<close> and the last rectangle \<open>lastR\<close> are present
  (the inner test \<^verbatim>\<open>this._resizingWindow && this._lastRect\<close> is then true). Every
  \<^verbatim>\<open>continue\<close> of the source returns the state for the next iteration.
\<close>

definition adjustRightStep ::
  "Desktop \<Rightarrow> nat \<Rightarrow> nat \<Rightarrow> Rect \<Rightarrow> int \<Rightarrow> StateStore \<times> MoveLog \<Rightarrow> WindowState
     \<Rightarrow> StateStore \<times> MoveLog" where
  "adjustRightStep env resizing resizingId lastR delta st neighbor =
     (if \<not> getMetaWindow env (wid neighbor) then st
      else
        let newNeighborWidth = width (rect neighbor) - delta in
        if newNeighborWidth < MIN_WINDOW_WIDTH \<and> delta > 0 then
          let maxDelta = width (rect neighbor) - MIN_WINDOW_WIDTH in
          if maxDelta \<le> 0 then
            let constrainedRect = \<lparr>xpos = xpos lastR, ypos = ypos lastR,
                                   width = width lastR, height = height lastR\<rparr>
            in (setWindow resizingId (onlyRect constrainedRect) (fst st),
                snd st @ [(resizing, constrainedRect)])
          else
            let newRect = \<lparr>xpos = xpos (rect neighbor) + maxDelta, ypos = ypos (rect neighbor),
                           width = MIN_WINDOW_WIDTH, height = height (rect neighbor)\<rparr>
            in (setWindow (wid neighbor) (onlyRect newRect) (fst st),
                snd st @ [(wid neighbor, newRect)])
        else
          let newRect = \<lparr>xpos = xpos (rect neighbor) + delta, ypos = ypos (rect neighbor),
                         width = newNeighborWidth, height = height (rect neighbor)\<rparr>
          in (setWindow (wid neighbor) (onlyRect newRect) (fst st),
              snd st @ [(wid neighbor, newRect)]))"

text \<open>
  The neighbors are fetched once, before the loop; the loop then runs over that array
  while the store changes.
\<close>

definition adjustRightNeighbors ::
  "Desktop \<Rightarrow> nat \<Rightarrow> nat \<Rightarrow> Rect \<Rightarrow> int \<Rightarrow> StateStore \<times> MoveLog \<Rightarrow> StateStore \<times> MoveLog" where
  "adjustRightNeighbors env resizing resizingId lastR delta st =
     foldl (adjustRightStep env resizing resizingId lastR delta) st
       (getNeighbors (fst st) resizingId DRight)"

definition adjustLeftStep ::
  "Desktop \<Rightarrow> nat \<Rightarrow> nat \<Rightarrow> Rect \<Rightarrow> int \<Rightarrow> StateStore \<times> MoveLog \<Rightarrow> WindowState
     \<Rightarrow> StateStore \<times> MoveLog" where
  "adjustLeftStep env resizing resizingId lastR delta st neighbor =
     (if \<not> getMetaWindow env (wid neighbor) then st
      else
        let newNeighborWidth = width (rect neighbor) + delta in
        if newNeighborWidth < MIN_WINDOW_WIDTH \<and> delta < 0 then
          if width (rect neighbor) \<le> MIN_WINDOW_WIDTH then
            let constrainedRect = \<lparr>xpos = xpos lastR, ypos = ypos lastR,
                                   width = width lastR, height = height lastR\<rparr>
            in (setWindow resizingId (onlyRect constrainedRect) (fst st),
                snd st @ [(resizing, constrainedRect)])
          else
            let newRect = \<lparr>xpos = xpos (rect neighbor), ypos = ypos (rect neighbor),
                           width = MIN_WINDOW_WIDTH, height = height (rect neighbor)\<rparr>
            in (setWindow (wid neighbor) (onlyRect newRect) (fst st),
                snd st @ [(wid neighbor, newRect)])
        else
          let newRect = \<lparr>xpos = xpos (rect neighbor), ypos = ypos (rect neighbor),
                         width = newNeighborWidth, height = height (rect neighbor)\<rparr>
          in (setWindow (wid neighbor) (onlyRect newRect) (fst st),
              snd st @ [(wid neighbor, newRect)]))"

definition adjustLeftNeighbors ::
  "Desktop \<Rightarrow> nat \<Rightarrow> nat \<Rightarrow> Rect \<Rightarrow> int \<Rightarrow> StateStore \<times> MoveLog \<Rightarrow> StateStore \<times> MoveLog" where
  "adjustLeftNeighbors env resizing resizingId lastR delta st =
     foldl (adjustLeftStep env resizing resizingId lastR delta) st
       (getNeighbors (fst st) resizingId DLeft)"

definition adjustBottomStep ::
  "Desktop \<Rightarrow> int \<Rightarrow> StateStore \<times> MoveLog \<Rightarrow> WindowState \<Rightarrow> StateStore \<times> MoveLog" where
  "adjustBottomStep env delta st neighbor =
     (if \<not> getMetaWindow env (wid neighbor) then st
      else
        let newRect = \<lparr>xpos = xpos (rect neighbor), ypos = ypos (rect neighbor) + delta,
                       width = width (rect neighbor), height = height (rect neighbor) - delta\<rparr>
        in if height newRect < MIN_WINDOW_HEIGHT then st
           else (setWindow (wid neighbor) (onlyRect newRect) (fst st),
                 snd st @ [(wid neighbor, newRect)]))"

definition adjustBottomNeighbors ::
  "Desktop \<Rightarrow> nat \<Rightarrow> int \<Rightarrow> StateStore \<times> MoveLog \<Rightarrow> StateStore \<times> MoveLog" where
  "adjustBottomNeighbors env resizingId delta st =
     foldl (adjustBottomStep env delta) st (getNeighbors (fst st) resizingId DBottom)"

definition adjustTopStep ::
  "Desktop \<Rightarrow> int \<Rightarrow> StateStore \<times> MoveLog \<Rightarrow> WindowState \<Rightarrow> StateStore \<times> MoveLog" where
  "adjustTopStep env delta st neighbor =
     (if \<not> getMetaWindow env (wid neighbor) then st
      else
        let newRect = \<lparr>xpos = xpos (rect neighbor), ypos = ypos (rect neighbor),
                       width = width (rect neighbor), height = height (rect neighbor) + delta\<rparr>
        in if height newRect < MIN_WINDOW_HEIGHT then st
           else (setWindow (wid neighbor) (onlyRect newRect) (fst st),
                 snd st @ [(wid neighbor, newRect)]))"

definition adjustTopNeighbors ::
  "Desktop \<Rightarrow> nat \<Rightarrow> int \<Rightarrow> StateStore \<times> MoveLog \<Rightarrow> StateStore \<times> MoveLog" where
  "adjustTopNeighbors env resizingId delta st =
     foldl (adjustTopStep env delta) st (getNeighbors (fst st) resizingId DTop)"

text \<open>
  One polling tick. \<open>currentRect\<close> is the rectangle the window manager reports for the
  resizing window. The guard \<^verbatim>\<open>!this._resizingWindowId\<close> also rejects the id 0.
\<close>

definition handleResizeUpdate ::
  "Desktop \<Rightarrow> Rect \<Rightarrow> ResizeHandler \<Rightarrow> StateStore \<times> MoveLog
     \<Rightarrow> ResizeHandler \<times> StateStore \<times> MoveLog" where
  "handleResizeUpdate env currentRect h st =
     (case (resizingWindow h, lastRect h, resizingWindowId h) of
        (Some resizing, Some lastR, Some resizingId) \<Rightarrow>
          if resizingId = 0 then (h, st)
          else
            let edges = getResizeEdges (resizeDirection h);
                deltaLeft = xpos currentRect - xpos lastR;
                deltaRight = (xpos currentRect + width currentRect) - (xpos lastR + width lastR);
                deltaTop = ypos currentRect - ypos lastR;
                deltaBottom = (ypos currentRect + height currentRect) - (ypos lastR + height lastR);
                st1 = (if e_right edges \<and> deltaRight \<noteq> 0
                       then adjustRightNeighbors env resizing resizingId lastR deltaRight st
                       else st);
                st2 = (if e_left edges \<and> deltaLeft \<noteq> 0
                       then adjustLeftNeighbors env resizing resizingId lastR deltaLeft st1
                       else st1);
                st3 = (if e_bottom edges \<and> deltaBottom \<noteq> 0
                       then adjustBottomNeighbors env resizingId deltaBottom st2
                       else st2);
                st4 = (if e_top edges \<and> deltaTop \<noteq> 0
                       then adjustTopNeighbors env resizingId deltaTop st3
                       else st3)
            in (h\<lparr>lastRect := Some currentRect\<rparr>,
                setWindow resizingId (onlyRect currentRect) (fst st4), snd st4)
      | _ \<Rightarrow> (h, st))"

section \<open>SwapDetector\<close>

text \<open>A window object is identified with its stable sequence number.\<close>

record SwapDetector =
  draggedWindow :: "nat option"
  draggedWindowId :: "nat option"
  dragStartRect :: "Rect option"
  potentialSwapTarget :: "nat option"

record SwapEvent =
  ev_draggedWindow :: nat
  ev_targetWindowId :: nat
  ev_draggedTargetRect :: Rect
  ev_targetNewRect :: Rect

text \<open>The center has halves of pixels, so a point is a pair of rationals.\<close>

definition getCenter :: "Rect \<Rightarrow> rat \<times> rat" where
  "getCenter r = (of_int (xpos r) + of_int (width r) / 2, of_int (ypos r) + of_int (height r) / 2)"

definition isPointInRect :: "rat \<times> rat \<Rightarrow> Rect \<Rightarrow> bool" where
  "isPointInRect point r =
     (fst point \<ge> of_int (xpos r) \<and> fst point \<le> of_int (xpos r + width r)
      \<and> snd point \<ge> of_int (ypos r) \<and> snd point \<le> of_int (ypos r + height r))"

text \<open>\<open>isNormal\<close> is \<^verbatim>\<open>GnomeCompat.isNormalWindow(window)\<close>.\<close>

definition swapOnGrabBegin ::
  "nat \<Rightarrow> GrabOp \<Rightarrow> bool \<Rightarrow> StateStore \<Rightarrow> SwapDetector \<Rightarrow> SwapDetector" where
  "swapOnGrabBegin window grabOp isNormal s d =
     (if grabOp \<noteq> MOVING then d
      else if \<not> isNormal then d
      else
        let windowId = window in
        case getWindow s windowId of
          None \<Rightarrow> d
        | Some state \<Rightarrow>
            if \<not> isTiled state then d
            else d\<lparr>draggedWindow := Some window, draggedWindowId := Some windowId,
                   dragStartRect := Some (rect state), potentialSwapTarget := None\<rparr>)"

text \<open>
  One poll of \<^verbatim>\<open>_checkForSwap\<close>; \<open>currentRect\<close> is the live rectangle of the dragged
  window. The guard \<^verbatim>\<open>!this._draggedWindowId\<close> also rejects the id 0.
\<close>

definition checkForSwap :: "Rect \<Rightarrow> StateStore \<Rightarrow> SwapDetector \<Rightarrow> SwapDetector" where
  "checkForSwap currentRect s d =
     (case (draggedWindow d, draggedWindowId d) of
        (Some dw, Some did) \<Rightarrow>
          if did = 0 then d
          else
            let currentCenter = getCenter currentRect;
                tiledWindows = getTiledWindows s;
                newTarget = map_option wid
                  (find (\<lambda>tiled. wid tiled \<noteq> did \<and> isPointInRect currentCenter (rect tiled))
                     tiledWindows)
            in if newTarget \<noteq> potentialSwapTarget d
               then d\<lparr>potentialSwapTarget := newTarget\<rparr> else d
      | _ \<Rightarrow> d)"

text \<open>
  \<^verbatim>\<open>_performSwap\<close> builds the event, or returns without one. The drag-start rectangle
  is set together with the dragged window and cleared together with it, so it is
  present whenever the dragged window is; the model builds no event without it.
\<close>

definition performSwap :: "StateStore \<Rightarrow> SwapDetector \<Rightarrow> SwapEvent option" where
  "performSwap s d =
     (case (draggedWindow d, draggedWindowId d, potentialSwapTarget d) of
        (Some dw, Some did, Some target) \<Rightarrow>
          if did = 0 \<or> target = 0 then None
          else
            (case getWindow s target of
               None \<Rightarrow> None
             | Some targetState \<Rightarrow>
                 (case getWindow s did of
                    None \<Rightarrow> None
                  | Some draggedState \<Rightarrow>
                      (case dragStartRect d of
                         None \<Rightarrow> None
                       | Some startRect \<Rightarrow>
                           Some \<lparr>ev_draggedWindow = dw, ev_targetWindowId = target,
                                 ev_draggedTargetRect = rect targetState,
                                 ev_targetNewRect = startRect\<rparr>)))
      | _ \<Rightarrow> None)"

section \<open>Double-precision numbers\<close>

text \<open>
  The insertion planner divides two integers that need not divide evenly
  (\<^verbatim>\<open>remainingWidth / currentTotalWidth\<close>) and multiplies every width of the row with the
  quotient, so these values are doubles. \<open>roundDouble\<close> rounds a rational to the nearest
  number with a 53 bit significand, ties to the even significand, which is what the
  division and the multiplication of doubles do with the exact result. The exponent is
  not bounded: there is no overflow and there are no subnormal numbers, so the function
  is the rounding of doubles for magnitudes between \<open>2^-1022\<close> and \<open>2^1024\<close>.
\<close>

definition roundEven :: "rat \<Rightarrow> int" where
  "roundEven z =
     (let f = \<lfloor>z\<rfloor>; d = z - of_int f
      in if d < 1 / 2 then f else if 1 / 2 < d then f + 1 else if even f then f else f + 1)"

text \<open>
  The exponent \<open>e\<close> with \<open>2^e \<le> y < 2^(e + 1)\<close>, for \<open>y > 0\<close>.
\<close>

definition binaryExponent :: "rat \<Rightarrow> int" where
  "binaryExponent y = (if 1 \<le> y then bitlen \<lfloor>y\<rfloor> - 1 else - bitlen (\<lceil>1 / y\<rceil> - 1))"

definition roundDouble :: "rat \<Rightarrow> rat" where
  "roundDouble x =
     (if x = 0 then 0
      else let e = binaryExponent \<bar>x\<bar>; q = 2 powi (e - 52)
           in of_int (roundEven (x / q)) * q)"

text \<open>
  A JavaScript number: a finite value, \<^verbatim>\<open>Infinity\<close>, \<^verbatim>\<open>-Infinity\<close> or \<^verbatim>\<open>NaN\<close>. The sign
  of zero is not kept (a zero divisor counts as \<open>+0\<close>; the divisors of the planner are sums
  of integers starting from \<open>0\<close>, which are never \<open>-0\<close>).
\<close>

datatype jsnum = Num rat | PosInf | NegInf | NaN

definition jsInt :: "int \<Rightarrow> jsnum" where
  "jsInt k = Num (of_int k)"

text \<open>
  The operators of the planner. Sums and differences are exact: the planner adds and
  subtracts integers only, and on integers below \<open>2^53\<close> the addition of doubles is
  exact (integers are unbounded everywhere in this development). Products and quotients
  are rounded. A comparison with \<^verbatim>\<open>NaN\<close> is false; \<^verbatim>\<open>Math.max\<close> returns \<^verbatim>\<open>NaN\<close> when an
  argument is \<^verbatim>\<open>NaN\<close>.
\<close>

fun jsNegate :: "jsnum \<Rightarrow> jsnum" where
  "jsNegate (Num a) = Num (- a)"
| "jsNegate PosInf = NegInf"
| "jsNegate NegInf = PosInf"
| "jsNegate NaN = NaN"

fun jsPlus :: "jsnum \<Rightarrow> jsnum \<Rightarrow> jsnum" where
  "jsPlus (Num a) (Num b) = Num (a + b)"
| "jsPlus NaN y = NaN"
| "jsPlus x NaN = NaN"
| "jsPlus PosInf NegInf = NaN"
| "jsPlus NegInf PosInf = NaN"
| "jsPlus PosInf y = PosInf"
| "jsPlus x PosInf = PosInf"
| "jsPlus NegInf y = NegInf"
| "jsPlus x NegInf = NegInf"

definition jsMinus :: "jsnum \<Rightarrow> jsnum \<Rightarrow> jsnum" where
  "jsMinus x y = jsPlus x (jsNegate y)"

fun jsTimes :: "jsnum \<Rightarrow> jsnum \<Rightarrow> jsnum" where
  "jsTimes (Num a) (Num b) = Num (roundDouble (a * b))"
| "jsTimes NaN y = NaN"
| "jsTimes x NaN = NaN"
| "jsTimes (Num a) PosInf = (if 0 < a then PosInf else if a < 0 then NegInf else NaN)"
| "jsTimes (Num a) NegInf = (if 0 < a then NegInf else if a < 0 then PosInf else NaN)"
| "jsTimes PosInf (Num b) = (if 0 < b then PosInf else if b < 0 then NegInf else NaN)"
| "jsTimes NegInf (Num b) = (if 0 < b then NegInf else if b < 0 then PosInf else NaN)"
| "jsTimes PosInf PosInf = PosInf"
| "jsTimes PosInf NegInf = NegInf"
| "jsTimes NegInf PosInf = NegInf"
| "jsTimes NegInf NegInf = PosInf"

fun jsDivide :: "jsnum \<Rightarrow> jsnum \<Rightarrow> jsnum" where
  "jsDivide (Num a) (Num b) =
     (if b = 0 then (if 0 < a then PosInf else if a < 0 then NegInf else NaN)
      else Num (roundDouble (a / b)))"
| "jsDivide NaN y = NaN"
| "jsDivide x NaN = NaN"
| "jsDivide (Num a) y = Num 0"
| "jsDivide PosInf (Num b) = (if 0 \<le> b then PosInf else NegInf)"
| "jsDivide NegInf (Num b) = (if 0 \<le> b then NegInf else PosInf)"
| "jsDivide x y = NaN"

fun jsLess :: "jsnum \<Rightarrow> jsnum \<Rightarrow> bool" where
  "jsLess (Num a) (Num b) = (a < b)"
| "jsLess (Num a) PosInf = True"
| "jsLess NegInf (Num b) = True"
| "jsLess NegInf PosInf = True"
| "jsLess x y = False"

fun jsFloor :: "jsnum \<Rightarrow> jsnum" where
  "jsFloor (Num a) = Num (of_int \<lfloor>a\<rfloor>)"
| "jsFloor x = x"

fun jsCeil :: "jsnum \<Rightarrow> jsnum" where
  "jsCeil (Num a) = Num (of_int \<lceil>a\<rceil>)"
| "jsCeil x = x"

fun jsMax :: "jsnum \<Rightarrow> jsnum \<Rightarrow> jsnum" where
  "jsMax (Num a) (Num b) = Num (max a b)"
| "jsMax NaN y = NaN"
| "jsMax x NaN = NaN"
| "jsMax PosInf y = PosInf"
| "jsMax x PosInf = PosInf"
| "jsMax NegInf y = y"
| "jsMax x NegInf = x"

section \<open>TileManager\<close>

subsection \<open>Swap\<close>

definition onSwapDetected ::
  "Desktop \<Rightarrow> SwapEvent \<Rightarrow> StateStore \<times> MoveLog \<Rightarrow> StateStore \<times> MoveLog" where
  "onSwapDetected env event st =
     (let draggedWindowId = ev_draggedWindow event;
          targetWindowId = ev_targetWindowId event
      in if \<not> findMetaWindow env targetWindowId then st
         else
           let moves = snd st @ [(draggedWindowId, ev_draggedTargetRect event),
                                 (targetWindowId, ev_targetNewRect event)];
               draggedState = getWindow (fst st) draggedWindowId;
               targetState = getWindow (fst st) targetWindowId;
               s1 = (case draggedState of
                       None \<Rightarrow> fst st
                     | Some ds \<Rightarrow>
                         setWindow draggedWindowId
                           (noFields\<lparr>p_rect := Some (ev_draggedTargetRect event),
                                     p_zone := Some (case targetState of Some ts \<Rightarrow> zone ts
                                                     | None \<Rightarrow> ''swapped'')\<rparr>) (fst st));
               s2 = (case targetState of
                       None \<Rightarrow> s1
                     | Some ts \<Rightarrow>
                         setWindow targetWindowId
                           (noFields\<lparr>p_rect := Some (ev_targetNewRect event),
                                     p_zone := Some (case draggedState of Some ds \<Rightarrow> zone ds
                                                     | None \<Rightarrow> ''swapped'')\<rparr>) s1)
           in (recalculateNeighbors s2, moves))"

text \<open>
  \<^verbatim>\<open>SwapDetector._onGrabEnd\<close>, with the swap event delivered to the handler
  \<^verbatim>\<open>TileManager._onSwapDetected\<close> that \<^verbatim>\<open>enable()\<close> registers; \<open>inEdgeZone\<close> is
  \<^verbatim>\<open>_isInEdgeZone()\<close>, computed from the pointer.
\<close>

definition swapOnGrabEnd ::
  "Desktop \<Rightarrow> nat \<Rightarrow> bool \<Rightarrow> SwapDetector \<Rightarrow> StateStore \<times> MoveLog
     \<Rightarrow> SwapDetector \<times> StateStore \<times> MoveLog" where
  "swapOnGrabEnd env window inEdgeZone d st =
     (if Some window \<noteq> draggedWindow d then (d, st)
      else
        let st' = (if potentialSwapTarget d \<noteq> None \<and> \<not> inEdgeZone
                   then (case performSwap (fst st) d of
                           None \<Rightarrow> st
                         | Some event \<Rightarrow> onSwapDetected env event st)
                   else st)
        in (d\<lparr>draggedWindow := None, draggedWindowId := None,
               dragStartRect := None, potentialSwapTarget := None\<rparr>, st'))"

subsection \<open>Redistribution after removal\<close>

text \<open>
  The loop body of \<^verbatim>\<open>_redistributeAfterRemoval\<close>; the loop carries \<open>currentX\<close>. The
  store is updated for every tiled window, the window itself is moved when it is found.
\<close>

definition redistributeStep ::
  "Desktop \<Rightarrow> Rect \<Rightarrow> int \<Rightarrow> int \<Rightarrow> (StateStore \<times> MoveLog) \<times> int \<Rightarrow> WindowState
     \<Rightarrow> (StateStore \<times> MoveLog) \<times> int" where
  "redistributeStep env workArea gap windowWidth acc tiled =
     (let st = fst acc; currentX = snd acc;
          r = \<lparr>xpos = currentX, ypos = ypos workArea + gap,
               width = windowWidth, height = height workArea - gap * 2\<rparr>;
          s' = setWindow (wid tiled) (onlyRect r) (fst st);
          moves' = (if findMetaWindow env (wid tiled) then snd st @ [(wid tiled, r)] else snd st)
      in ((s', moves'), currentX + windowWidth + gap))"

text \<open>\<open>workArea\<close> is the work area of the monitor of the first tiled window.\<close>

definition redistributeAfterRemoval ::
  "Desktop \<Rightarrow> Rect \<Rightarrow> StateStore \<times> MoveLog \<Rightarrow> StateStore \<times> MoveLog" where
  "redistributeAfterRemoval env workArea st =
     (let tiledWindows = getTiledWindows (fst st) in
      case tiledWindows of
        [] \<Rightarrow> st
      | first # rest \<Rightarrow>
          if \<not> findMetaWindow env (wid first) then st
          else
            let gap = INNER_GAP;
                totalWindows = int (length tiledWindows);
                totalGaps = gap * (totalWindows + 1);
                availableWidth = width workArea - totalGaps;
                windowWidth = availableWidth div totalWindows;
                acc = foldl (redistributeStep env workArea gap windowWidth)
                        (st, xpos workArea + gap) tiledWindows
            in (recalculateNeighbors (fst (fst acc)), snd (fst acc)))"

definition onWindowRemoved ::
  "Desktop \<Rightarrow> Rect \<Rightarrow> nat \<Rightarrow> StateStore \<times> MoveLog \<Rightarrow> StateStore \<times> MoveLog" where
  "onWindowRemoved env workArea windowId st =
     (let wasTiled = (case getWindow (fst st) windowId of Some w \<Rightarrow> isTiled w | None \<Rightarrow> False);
          s1 = removeWindow windowId (fst st)
      in if wasTiled then redistributeAfterRemoval env workArea (s1, snd st) else (s1, snd st))"

subsection \<open>Insertion\<close>

text \<open>
  \<^verbatim>\<open>_onInsertDetected\<close> up to the end of its repositioning loop: the rectangles it
  computes, with the window each one is meant for. A planned rectangle has integer
  \<open>y\<close> and height; its \<open>x\<close> and width are JavaScript numbers, because the scaled widths
  are. The rectangle of the inserted window is always requested from the window manager,
  the one of an existing window when its \<^verbatim>\<open>Meta.Window\<close> is found. The two steps that
  follow the loop, \<^verbatim>\<open>recalculateNeighbors\<close> and \<^verbatim>\<open>_correctLayoutOverlaps\<close>, are not part of
  this model: the overlap correction works on the rectangles it reads back from the
  window manager after the requests.
\<close>

record PlannedRect =
  px :: jsnum
  py :: int
  pwidth :: jsnum
  pheight :: int

definition plannedRect :: "Rect \<Rightarrow> PlannedRect" where
  "plannedRect r = \<lparr>px = jsInt (xpos r), py = ypos r, pwidth = jsInt (width r), pheight = height r\<rparr>"


text \<open>
  The body of the first loop: the scaled width \<^verbatim>\<open>Math.floor(tiled.rect.width * scaleFactor)\<close>,
  raised to the minimum when it is below; the loop carries \<^verbatim>\<open>windowWidths\<close>,
  \<^verbatim>\<open>widthAfterMinEnforcement\<close> and \<^verbatim>\<open>windowsAtMinWidth\<close>.
\<close>

definition enforceMinStep ::
  "jsnum \<Rightarrow> jsnum list \<times> jsnum \<times> nat \<Rightarrow> WindowState \<Rightarrow> jsnum list \<times> jsnum \<times> nat" where
  "enforceMinStep scaleFactor acc tiled =
     (let windowWidths = fst acc; widthAfterMinEnforcement = fst (snd acc);
          windowsAtMinWidth = snd (snd acc);
          scaled = jsFloor (jsTimes (jsInt (width (rect tiled))) scaleFactor);
          atMin = jsLess scaled (jsInt MIN_WINDOW_WIDTH);
          scaledWidth = (if atMin then jsInt MIN_WINDOW_WIDTH else scaled)
      in (windowWidths @ [scaledWidth], jsPlus widthAfterMinEnforcement scaledWidth,
          (if atMin then Suc windowsAtMinWidth else windowsAtMinWidth)))"

text \<open>
  The shrink step, taken when the widths are too wide in all and some window is above
  the minimum.
\<close>

definition shrinkWidths :: "jsnum \<Rightarrow> nat \<Rightarrow> nat \<Rightarrow> jsnum list \<Rightarrow> jsnum list" where
  "shrinkWidths excessWidth windowsAtMinWidth n windowWidths =
     (if jsLess (jsInt 0) excessWidth \<and> windowsAtMinWidth < n then
        let windowsToShrink = int n - int windowsAtMinWidth;
            shrinkPerWindow = jsCeil (jsDivide excessWidth (jsInt windowsToShrink))
        in map (\<lambda>w. if jsLess (jsInt MIN_WINDOW_WIDTH) w
                     then jsMax (jsInt MIN_WINDOW_WIDTH) (jsMinus w shrinkPerWindow) else w)
             windowWidths
      else windowWidths)"

text \<open>
  The insert position: before the first window whose center lies right of the boundary
  (\<open>position < x + width / 2\<close>, written without the half), else after the last one.
\<close>

fun findInsertIndex :: "int \<Rightarrow> nat \<Rightarrow> WindowState list \<Rightarrow> nat" where
  "findInsertIndex position i [] = i"
| "findInsertIndex position i (tiled # rest) =
     (if 2 * position < 2 * xpos (rect tiled) + width (rect tiled) then i
      else findInsertIndex position (Suc i) rest)"

text \<open>
  The repositioning loop over \<open>i = 0 .. totalWindows - 1\<close>: \<open>remaining\<close> counts the
  iterations left, \<open>existing\<close> holds the windows from \<open>windowIndex\<close> on with their widths.
  Reading past the end of the arrays (a \<^verbatim>\<open>TypeError\<close> in the source) is the value \<open>None\<close>.
\<close>

fun repositionLoop ::
  "Rect \<Rightarrow> int \<Rightarrow> nat \<Rightarrow> int \<Rightarrow> nat \<Rightarrow> nat \<Rightarrow> nat \<Rightarrow> (nat \<times> jsnum) list \<Rightarrow> jsnum
     \<Rightarrow> (nat \<times> PlannedRect) list option" where
  "repositionLoop workArea gap insertedWindowId newWindowWidth insertIndex 0 i existing currentX
     = Some []"
| "repositionLoop workArea gap insertedWindowId newWindowWidth insertIndex (Suc remaining) i
     existing currentX =
     (if i = insertIndex then
        let r = \<lparr>px = currentX, py = ypos workArea + gap,
                 pwidth = jsInt newWindowWidth, pheight = height workArea - gap * 2\<rparr>
        in map_option (Cons (insertedWindowId, r))
             (repositionLoop workArea gap insertedWindowId newWindowWidth insertIndex remaining
                (Suc i) existing (jsPlus currentX (jsInt (newWindowWidth + gap))))
      else
        (case existing of
           [] \<Rightarrow> None
         | (tiledId, w) # existing' \<Rightarrow>
             let r = \<lparr>px = currentX, py = ypos workArea + gap,
                      pwidth = w, pheight = height workArea - gap * 2\<rparr>
             in map_option (Cons (tiledId, r))
                  (repositionLoop workArea gap insertedWindowId newWindowWidth insertIndex
                     remaining (Suc i) existing' (jsPlus currentX (jsPlus w (jsInt gap))))))"

text \<open>
  The plan for a row (already filtered and sorted). With no tiled window the inserted
  window is maximized. \<^verbatim>\<open>Math.floor(availableWidth / totalWindows)\<close> divides two integers
  and is \<open>div\<close>, as in the snap rectangles; the scale factor is a double, and is
  \<^verbatim>\<open>Infinity\<close>, \<^verbatim>\<open>-Infinity\<close> or \<^verbatim>\<open>NaN\<close> when the widths of the row sum to zero.
\<close>

definition insertPlan ::
  "Rect \<Rightarrow> nat \<Rightarrow> int \<Rightarrow> WindowState list \<Rightarrow> (nat \<times> PlannedRect) list option" where
  "insertPlan workArea insertedWindowId position tiledWindows =
     (if tiledWindows = [] then
        Some [(insertedWindowId, plannedRect (calculateSnapRect ''maximize'' workArea))]
      else
      let gap = INNER_GAP;
          totalWindows = length tiledWindows + 1;
          totalGapSpace = gap * 2 + gap * (int totalWindows - 1);
          availableWidth = width workArea - totalGapSpace;
          newWindowWidth = max MIN_WINDOW_WIDTH (availableWidth div int totalWindows);
          currentTotalWidth = foldl (\<lambda>sum w. sum + width (rect w)) 0 tiledWindows;
          remainingWidth = availableWidth - newWindowWidth;
          scaleFactor = jsDivide (jsInt remainingWidth) (jsInt currentTotalWidth);
          r = foldl (enforceMinStep scaleFactor) ([], jsInt 0, 0) tiledWindows;
          widthAfterMinEnforcement = fst (snd r);
          windowsAtMinWidth = snd (snd r);
          excessWidth = jsMinus (jsPlus widthAfterMinEnforcement (jsInt newWindowWidth))
                          (jsInt availableWidth);
          windowWidths = shrinkWidths excessWidth windowsAtMinWidth (length tiledWindows) (fst r);
          insertIndex = findInsertIndex position 0 tiledWindows
      in repositionLoop workArea gap insertedWindowId newWindowWidth insertIndex totalWindows 0
           (zip (map wid tiledWindows) windowWidths) (jsInt (xpos workArea + gap)))"

section \<open>Predicates used in the proofs\<close>

text \<open>The four tests of \<^verbatim>\<open>_findNeighbors\<close> on a pair of windows, by name.\<close>

definition isRightOf :: "WindowState \<Rightarrow> WindowState \<Rightarrow> bool" where
  "isRightOf w other \<longleftrightarrow> wid other \<noteq> wid w
     \<and> \<bar>getRightEdge (rect w) - xpos (rect other)\<bar> \<le> EDGE_TOLERANCE
     \<and> hasVerticalOverlap (rect w) (rect other) NEIGHBOR_OVERLAP_MIN"

definition isLeftOf :: "WindowState \<Rightarrow> WindowState \<Rightarrow> bool" where
  "isLeftOf w other \<longleftrightarrow> wid other \<noteq> wid w
     \<and> \<bar>xpos (rect w) - getRightEdge (rect other)\<bar> \<le> EDGE_TOLERANCE
     \<and> hasVerticalOverlap (rect w) (rect other) NEIGHBOR_OVERLAP_MIN"

definition isBelow :: "WindowState \<Rightarrow> WindowState \<Rightarrow> bool" where
  "isBelow w other \<longleftrightarrow> wid other \<noteq> wid w
     \<and> \<bar>getBottomEdge (rect w) - ypos (rect other)\<bar> \<le> EDGE_TOLERANCE
     \<and> hasHorizontalOverlap (rect w) (rect other) NEIGHBOR_OVERLAP_MIN"

definition isAbove :: "WindowState \<Rightarrow> WindowState \<Rightarrow> bool" where
  "isAbove w other \<longleftrightarrow> wid other \<noteq> wid w
     \<and> \<bar>ypos (rect w) - getBottomEdge (rect other)\<bar> \<le> EDGE_TOLERANCE
     \<and> hasHorizontalOverlap (rect w) (rect other) NEIGHBOR_OVERLAP_MIN"

text \<open>
  A rectangle of at least the minimum size; a request that is such a rectangle or the
  revert of the resizing window; a store in which the neighbors of the resizing window
  are other windows of at least the minimum size.
\<close>

definition sizeOk :: "Rect \<Rightarrow> bool" where
  "sizeOk r \<longleftrightarrow> width r \<ge> MIN_WINDOW_WIDTH \<and> height r \<ge> MIN_WINDOW_HEIGHT"

definition moveOk :: "nat \<Rightarrow> Rect \<Rightarrow> nat \<times> Rect \<Rightarrow> bool" where
  "moveOk resizing lastR m \<longleftrightarrow> (fst m = resizing \<and> snd m = lastR) \<or> sizeOk (snd m)"

definition neighborsSized :: "nat \<Rightarrow> StateStore \<Rightarrow> bool" where
  "neighborsSized resizingId s \<longleftrightarrow>
     (\<forall>d. \<forall>n \<in> set (getNeighbors s resizingId d). wid n \<noteq> resizingId \<and> sizeOk (rect n))"

text \<open>
  A window is present in the store; a window with the rectangle that
  \<^verbatim>\<open>setWindow(j, {rect: r})\<close> gives it; the invariant of a resize tick over the store and
  the requests made so far.
\<close>

definition isPresent :: "StateStore \<Rightarrow> nat \<Rightarrow> bool" where
  "isPresent s k \<longleftrightarrow> getWindow s k \<noteq> None"

definition withRect :: "nat \<Rightarrow> Rect \<Rightarrow> WindowState \<Rightarrow> WindowState" where
  "withRect j r n = (if wid n = j then n\<lparr>rect := r\<rparr> else n)"

definition tickOk :: "nat \<Rightarrow> nat \<Rightarrow> Rect \<Rightarrow> nat set \<Rightarrow> StateStore \<times> MoveLog \<Rightarrow> bool" where
  "tickOk resizing resizingId lastR present st \<longleftrightarrow>
     neighborsSized resizingId (fst st)
     \<and> (\<forall>k. isPresent (fst st) k \<longleftrightarrow> k \<in> present)
     \<and> (\<forall>m \<in> set (snd st). moveOk resizing lastR m)"

text \<open>
  The widths \<^verbatim>\<open>_onInsertDetected\<close> computes for a row whose widths do not sum to zero, as
  integers and by name: the scaled width of one window, the available width, the width of
  the new window, the widths after the first loop with the number of windows raised to the
  minimum, and the widths after the shrink step.
\<close>

definition scaleWidth :: "int \<Rightarrow> int \<Rightarrow> int \<Rightarrow> int" where
  "scaleWidth w remainingWidth currentTotalWidth =
     \<lfloor>roundDouble (of_int w * roundDouble (of_int remainingWidth / of_int currentTotalWidth))\<rfloor>"

definition availableWidth :: "Rect \<Rightarrow> WindowState list \<Rightarrow> int" where
  "availableWidth wa tiledWindows =
     width wa - (INNER_GAP * 2 + INNER_GAP * int (length tiledWindows))"

definition plannedNewWidth :: "Rect \<Rightarrow> WindowState list \<Rightarrow> int" where
  "plannedNewWidth wa tiledWindows =
     max MIN_WINDOW_WIDTH (availableWidth wa tiledWindows div (int (length tiledWindows) + 1))"

definition clampedWidths :: "Rect \<Rightarrow> WindowState list \<Rightarrow> int list" where
  "clampedWidths wa tiledWindows =
     map (\<lambda>t. max MIN_WINDOW_WIDTH
            (scaleWidth (width (rect t))
               (availableWidth wa tiledWindows - plannedNewWidth wa tiledWindows)
               (foldl (\<lambda>sum w. sum + width (rect w)) 0 tiledWindows))) tiledWindows"

definition raisedCount :: "Rect \<Rightarrow> WindowState list \<Rightarrow> nat" where
  "raisedCount wa tiledWindows =
     length (filter (\<lambda>t. scaleWidth (width (rect t))
               (availableWidth wa tiledWindows - plannedNewWidth wa tiledWindows)
               (foldl (\<lambda>sum w. sum + width (rect w)) 0 tiledWindows) < MIN_WINDOW_WIDTH) tiledWindows)"

definition plannedWidths :: "Rect \<Rightarrow> WindowState list \<Rightarrow> int list" where
  "plannedWidths wa tiledWindows =
     (let excessWidth = sum_list (clampedWidths wa tiledWindows) + plannedNewWidth wa tiledWindows
                          - availableWidth wa tiledWindows;
          c = raisedCount wa tiledWindows
      in if 0 < excessWidth \<and> c < length tiledWindows then
           map (\<lambda>w. if MIN_WINDOW_WIDTH < w
                 then max MIN_WINDOW_WIDTH
                        (w - \<lceil>roundDouble (of_int excessWidth
                                  / of_int (int (length tiledWindows) - int c))\<rceil>)
                 else w) (clampedWidths wa tiledWindows)
         else clampedWidths wa tiledWindows)"

text \<open>
  The polling timer of the swap detector calls \<^verbatim>\<open>_checkForSwap\<close> once per tick, each
  time with the live rectangle of the dragged window and the store of that moment.
\<close>

definition pollAll :: "(Rect \<times> StateStore) list \<Rightarrow> SwapDetector \<Rightarrow> SwapDetector" where
  "pollAll polls d = foldl (\<lambda>d' p. checkForSwap (fst p) (snd p) d') d polls"

section \<open>Example states\<close>

text \<open>
  All examples are on a 1920 x 1080 work area at the origin, with the configured gap 8.
  Two windows tiled side by side, before and after the neighbors are computed.
\<close>

definition fullHD :: Rect where
  "fullHD = \<lparr>xpos = 0, ypos = 0, width = 1920, height = 1080\<rparr>"

definition tile :: "nat \<Rightarrow> Rect \<Rightarrow> Neighbors \<Rightarrow> WindowState" where
  "tile i r nb = \<lparr>wid = i, rect = r, originalRect = None, zone = ''auto'', isTiled = True,
                  neighbors = nb\<rparr>"

definition leftHalf :: Rect where
  "leftHalf = \<lparr>xpos = 8, ypos = 8, width = 948, height = 1064\<rparr>"

definition rightHalf :: Rect where
  "rightHalf = \<lparr>xpos = 964, ypos = 8, width = 948, height = 1064\<rparr>"

definition twoTiles :: StateStore where
  "twoTiles = \<lparr>windows = [tile 1 leftHalf emptyNeighbors, tile 2 rightHalf emptyNeighbors],
               changes = 0\<rparr>"

definition twoTilesLinked :: StateStore where
  "twoTilesLinked =
     \<lparr>windows = [tile 1 leftHalf (emptyNeighbors\<lparr>nright := [2]\<rparr>),
                 tile 2 rightHalf (emptyNeighbors\<lparr>nleft := [1]\<rparr>)],
      changes = 0\<rparr>"


text \<open>
  A left half with two windows stacked on its right, the upper one at the minimum width;
  the right edge of the left window is being dragged 50 pixels to the right.
\<close>

definition topRight :: Rect where
  "topRight = \<lparr>xpos = 964, ypos = 8, width = 200, height = 528\<rparr>"

definition bottomRight :: Rect where
  "bottomRight = \<lparr>xpos = 964, ypos = 544, width = 948, height = 528\<rparr>"

definition threeTilesBare :: StateStore where
  "threeTilesBare =
     \<lparr>windows = [tile 2 leftHalf emptyNeighbors, tile 3 topRight emptyNeighbors,
                 tile 4 bottomRight emptyNeighbors],
      changes = 0\<rparr>"

definition threeTiles :: StateStore where
  "threeTiles =
     \<lparr>windows = [tile 2 leftHalf (emptyNeighbors\<lparr>nright := [3, 4]\<rparr>),
                 tile 3 topRight (emptyNeighbors\<lparr>nleft := [2], nbottom := [4]\<rparr>),
                 tile 4 bottomRight (emptyNeighbors\<lparr>nleft := [2], ntop := [3]\<rparr>)],
      changes = 0\<rparr>"

definition threeDesktop :: Desktop where
  "threeDesktop = \<lparr>workspaceWindows = [2, 3, 4], trackedWindows = [2, 3, 4]\<rparr>"

definition growingRight :: ResizeHandler where
  "growingRight = \<lparr>resizingWindow = Some 2, resizingWindowId = Some 2,
                    lastRect = Some leftHalf, resizeDirection = Some RESIZING_E\<rparr>"

definition grownLeft :: Rect where
  "grownLeft = \<lparr>xpos = 8, ypos = 8, width = 998, height = 1064\<rparr>"

definition shrunkBottomRight :: Rect where
  "shrunkBottomRight = \<lparr>xpos = 1014, ypos = 544, width = 898, height = 528\<rparr>"

text \<open>Three equal windows in a row, and the row after the middle one has been removed.\<close>

definition thirdLeft :: Rect where
  "thirdLeft = \<lparr>xpos = 8, ypos = 8, width = 629, height = 1064\<rparr>"

definition thirdMiddle :: Rect where
  "thirdMiddle = \<lparr>xpos = 645, ypos = 8, width = 629, height = 1064\<rparr>"

definition thirdRight :: Rect where
  "thirdRight = \<lparr>xpos = 1282, ypos = 8, width = 629, height = 1064\<rparr>"

definition threeThirds :: StateStore where
  "threeThirds =
     \<lparr>windows = [tile 2 thirdLeft (emptyNeighbors\<lparr>nright := [3]\<rparr>),
                 tile 3 thirdMiddle (emptyNeighbors\<lparr>nleft := [2], nright := [4]\<rparr>),
                 tile 4 thirdRight (emptyNeighbors\<lparr>nleft := [3]\<rparr>)],
      changes = 0\<rparr>"

definition desktop234 :: Desktop where
  "desktop234 = \<lparr>workspaceWindows = [2, 3, 4], trackedWindows = [2, 3, 4]\<rparr>"

definition afterRemoval :: StateStore where
  "afterRemoval =
     \<lparr>windows = [tile 2 thirdLeft emptyNeighbors, tile 4 thirdRight emptyNeighbors],
      changes = 1\<rparr>"




definition narrow :: "int \<Rightarrow> Rect" where
  "narrow k = \<lparr>xpos = 8 + 208 * k, ypos = 8, width = 200, height = 1064\<rparr>"

definition nineNarrow :: "WindowState list" where
  "nineNarrow = map (\<lambda>k. tile (nat k + 2) (narrow k) emptyNeighbors) [0, 1, 2, 3, 4, 5, 6, 7, 8]"

text \<open>
  A row of three windows of width 1136 on a 3440 wide work area, and a row of two windows
  of width zero.
\<close>

definition ultrawide :: Rect where
  "ultrawide = \<lparr>xpos = 0, ypos = 0, width = 3440, height = 1440\<rparr>"

definition wide :: "int \<Rightarrow> Rect" where
  "wide k = \<lparr>xpos = 8 + 1144 * k, ypos = 8, width = 1136, height = 1424\<rparr>"

definition threeWide :: "WindowState list" where
  "threeWide = map (\<lambda>k. tile (nat k + 2) (wide k) emptyNeighbors) [0, 1, 2]"

definition collapsed :: "WindowState list" where
  "collapsed = [tile 2 zeroRect emptyNeighbors, tile 4 zeroRect emptyNeighbors]"

text \<open>
  Two snapped halves; the left one is dragged until its center lies over the right one.
\<close>

definition snappedLeft :: WindowState where
  "snappedLeft = (tile 2 leftHalf (emptyNeighbors\<lparr>nright := [4]\<rparr>))\<lparr>zone := ''left''\<rparr>"

definition snappedRight :: WindowState where
  "snappedRight = (tile 4 rightHalf (emptyNeighbors\<lparr>nleft := [2]\<rparr>))\<lparr>zone := ''right''\<rparr>"

definition snapped :: StateStore where
  "snapped = \<lparr>windows = [snappedLeft, snappedRight], changes = 0\<rparr>"

definition idleDetector :: SwapDetector where
  "idleDetector = \<lparr>draggedWindow = None, draggedWindowId = None, dragStartRect = None,
                    potentialSwapTarget = None\<rparr>"

definition draggedOver :: Rect where
  "draggedOver = \<lparr>xpos = 900, ypos = 100, width = 948, height = 1064\<rparr>"

section \<open>Lemmas: the store\<close>

lemma find_mapSet:
  "find (\<lambda>v. wid v = j) (mapSet w vs) = (if j = wid w then Some w else find (\<lambda>v. wid v = j) vs)"
  by (induction vs) auto

lemma map_wid_mapSet:
  "map wid (mapSet w vs) = (if wid w \<in> set (map wid vs) then map wid vs else map wid vs @ [wid w])"
  by (induction vs) auto

lemma distinct_mapSet: "distinct (map wid vs) \<Longrightarrow> distinct (map wid (mapSet w vs))"
  by (simp add: map_wid_mapSet)

lemma getWindow_wid: "getWindow s i = Some w \<Longrightarrow> wid w = i"
  by (auto simp: getWindow_def find_Some_iff)

lemma getWindow_mem: "getWindow s i = Some w \<Longrightarrow> w \<in> set (windows s)"
  by (auto simp: getWindow_def find_Some_iff)

lemma getWindow_None_iff: "getWindow s i = None \<longleftrightarrow> i \<notin> wid ` set (windows s)"
  by (auto simp: getWindow_def find_None_iff)

lemma getWindow_distinct:
  "wellFormed s \<Longrightarrow> w \<in> set (windows s) \<Longrightarrow> getWindow s (wid w) = Some w"
  unfolding wellFormed_def getWindow_def
proof (induction "windows s" arbitrary: s)
  case Nil then show ?case by simp
next
  case (Cons a as)
  from Cons(2)[symmetric] Cons(3,4) show ?case
    using Cons(1)[of "s\<lparr>windows := as\<rparr>"] by (auto simp: image_iff)
qed

lemma getWindow_setWindow_other:
  "j \<noteq> i \<Longrightarrow> getWindow (setWindow i p s) j = getWindow s j"
  by (simp add: setWindow_def getWindow_def notifyChange_def Let_def find_mapSet)

lemma getWindow_setWindow_rect:
  "getWindow (setWindow i (onlyRect r) s) i =
     Some (case getWindow s i of
             Some e \<Rightarrow> e\<lparr>rect := r\<rparr>
           | None \<Rightarrow> \<lparr>wid = i, rect = r, originalRect = None, zone = ''none'',
                      isTiled = False, neighbors = emptyNeighbors\<rparr>)"
proof (cases "getWindow s i")
  case None
  then show ?thesis
    by (simp add: setWindow_def getWindow_def notifyChange_def Let_def find_mapSet
        onlyRect_def noFields_def)
next
  case (Some e)
  then have "wid e = i" by (rule getWindow_wid)
  with Some show ?thesis
    by (cases e) (simp add: setWindow_def getWindow_def notifyChange_def Let_def find_mapSet
        onlyRect_def noFields_def)
qed

lemma wellFormed_setWindow: "wellFormed s \<Longrightarrow> wellFormed (setWindow i p s)"
  by (simp add: wellFormed_def setWindow_def notifyChange_def Let_def distinct_mapSet)

section \<open>Lemmas: neighbor lists\<close>

lemma findNeighborsStep_eq:
  "findNeighborsStep w nb other =
     \<lparr>nleft = nleft nb @ (if isLeftOf w other then [wid other] else []),
      nright = nright nb @ (if isRightOf w other then [wid other] else []),
      ntop = ntop nb @ (if isAbove w other then [wid other] else []),
      nbottom = nbottom nb @ (if isBelow w other then [wid other] else [])\<rparr>"
  by (simp add: findNeighborsStep_def Let_def isLeftOf_def isRightOf_def isAbove_def isBelow_def)

lemma foldl_findNeighborsStep:
  "foldl (findNeighborsStep w) nb ws =
     \<lparr>nleft = nleft nb @ map wid (filter (isLeftOf w) ws),
      nright = nright nb @ map wid (filter (isRightOf w) ws),
      ntop = ntop nb @ map wid (filter (isAbove w) ws),
      nbottom = nbottom nb @ map wid (filter (isBelow w) ws)\<rparr>"
proof (induction ws arbitrary: nb)
  case Nil
  then show ?case by simp
next
  case (Cons v ws)
  show ?case
    unfolding foldl_Cons Cons.IH
    by (simp add: findNeighborsStep_eq)
qed

lemma findNeighbors_eq:
  "findNeighbors w ws =
     \<lparr>nleft = map wid (filter (isLeftOf w) ws),
      nright = map wid (filter (isRightOf w) ws),
      ntop = map wid (filter (isAbove w) ws),
      nbottom = map wid (filter (isBelow w) ws)\<rparr>"
  by (simp add: findNeighbors_def foldl_findNeighborsStep emptyNeighbors_def)

lemma recalculated_tiled:
  assumes "A \<in> set (windows (recalculateNeighbors s))" "isTiled A"
  obtains A0 where "A0 \<in> set (windows s)" "isTiled A0" "wid A0 = wid A" "rect A0 = rect A"
    "neighbors A = findNeighbors A0 (getTiledWindows s)"
  using assms by (auto simp: recalculateNeighbors_def Let_def split: if_splits)

lemma same_wid_same_window:
  "wellFormed s \<Longrightarrow> a \<in> set (windows s) \<Longrightarrow> b \<in> set (windows s) \<Longrightarrow> wid a = wid b \<Longrightarrow> a = b"
  by (metis getWindow_distinct option.inject)

lemma hasVerticalOverlap_sym: "hasVerticalOverlap a b m = hasVerticalOverlap b a m"
  by (simp add: hasVerticalOverlap_def Let_def max.commute min.commute)

lemma hasHorizontalOverlap_sym: "hasHorizontalOverlap a b m = hasHorizontalOverlap b a m"
  by (simp add: hasHorizontalOverlap_def Let_def max.commute min.commute)

lemma isRightOf_isLeftOf: "isRightOf a b \<longleftrightarrow> isLeftOf b a"
  unfolding isRightOf_def isLeftOf_def
  by (metis abs_minus_commute hasVerticalOverlap_sym)

lemma isBelow_isAbove: "isBelow a b \<longleftrightarrow> isAbove b a"
  unfolding isBelow_def isAbove_def
  by (metis abs_minus_commute hasHorizontalOverlap_sym)

lemma neighbor_mem_iff:
  assumes wf: "wellFormed s"
    and A: "A \<in> set (windows (recalculateNeighbors s))" "isTiled A"
    and B: "B \<in> set (windows (recalculateNeighbors s))" "isTiled B"
  shows "wid B \<in> set (nright (neighbors A)) \<longleftrightarrow> isRightOf A B"
    and "wid B \<in> set (nleft (neighbors A)) \<longleftrightarrow> isLeftOf A B"
    and "wid B \<in> set (ntop (neighbors A)) \<longleftrightarrow> isAbove A B"
    and "wid B \<in> set (nbottom (neighbors A)) \<longleftrightarrow> isBelow A B"
proof -
  from A obtain A0 where A0: "A0 \<in> set (windows s)" "isTiled A0" "wid A0 = wid A"
    "rect A0 = rect A" "neighbors A = findNeighbors A0 (getTiledWindows s)"
    by (rule recalculated_tiled)
  from B obtain B0 where B0: "B0 \<in> set (windows s)" "isTiled B0" "wid B0 = wid B"
    "rect B0 = rect B" by (rule recalculated_tiled)
  have same: "v = B0" if "v \<in> set (getTiledWindows s)" "wid v = wid B" for v
    using that same_wid_same_window[OF wf _ B0(1), of v] B0(3) by (simp add: getTiledWindows_def)
  have B0t: "B0 \<in> set (getTiledWindows s)" using B0 by (simp add: getTiledWindows_def)
  have key: "wid B \<in> wid ` {v \<in> set (getTiledWindows s). P v} \<longleftrightarrow> P B0" for P
  proof
    assume "wid B \<in> wid ` {v \<in> set (getTiledWindows s). P v}"
    then obtain v where v: "v \<in> set (getTiledWindows s)" "P v" "wid v = wid B" by auto
    from same[OF v(1,3)] v(2) show "P B0" by simp
  next
    assume "P B0"
    with B0t have "B0 \<in> {v \<in> set (getTiledWindows s). P v}" by simp
    then have "wid B0 \<in> wid ` {v \<in> set (getTiledWindows s). P v}" by (rule imageI)
    then show "wid B \<in> wid ` {v \<in> set (getTiledWindows s). P v}" by (simp only: B0(3))
  qed
  have eqs: "isRightOf A0 B0 = isRightOf A B" "isLeftOf A0 B0 = isLeftOf A B"
    "isAbove A0 B0 = isAbove A B" "isBelow A0 B0 = isBelow A B"
    using A0 B0 by (simp_all add: isRightOf_def isLeftOf_def isAbove_def isBelow_def)
  show "wid B \<in> set (nright (neighbors A)) \<longleftrightarrow> isRightOf A B"
    using key[of "isRightOf A0"] by (simp add: A0(5) findNeighbors_eq eqs)
  show "wid B \<in> set (nleft (neighbors A)) \<longleftrightarrow> isLeftOf A B"
    using key[of "isLeftOf A0"] by (simp add: A0(5) findNeighbors_eq eqs)
  show "wid B \<in> set (ntop (neighbors A)) \<longleftrightarrow> isAbove A B"
    using key[of "isAbove A0"] by (simp add: A0(5) findNeighbors_eq eqs)
  show "wid B \<in> set (nbottom (neighbors A)) \<longleftrightarrow> isBelow A B"
    using key[of "isBelow A0"] by (simp add: A0(5) findNeighbors_eq eqs)
qed

lemmas geometry_defs = getRightEdge_def getBottomEdge_def hasVerticalOverlap_def
  hasHorizontalOverlap_def EDGE_TOLERANCE_def NEIGHBOR_OVERLAP_MIN_def

lemmas example_defs = tile_def leftHalf_def rightHalf_def twoTiles_def twoTilesLinked_def
  emptyNeighbors_def

lemma recalculate_twoTiles: "recalculateNeighbors twoTiles = twoTilesLinked"
  by (simp add: recalculateNeighbors_def getTiledWindows_def findNeighbors_def
      findNeighborsStep_def Let_def geometry_defs example_defs)

lemma twoTiles_facts:
  "wellFormed twoTiles"
  "tile 1 leftHalf (emptyNeighbors\<lparr>nright := [2]\<rparr>) \<in> set (windows (recalculateNeighbors twoTiles))"
  "tile 2 rightHalf (emptyNeighbors\<lparr>nleft := [1]\<rparr>) \<in> set (windows (recalculateNeighbors twoTiles))"
  "isTiled (tile i r nb)"
  by (simp_all add: recalculate_twoTiles twoTilesLinked_def)
    (simp_all add: wellFormed_def twoTiles_def tile_def)

lemma removeFromNeighbors_wid: "map wid (removeFromNeighbors i ws) = map wid ws"
  by (simp add: removeFromNeighbors_def)

section \<open>Lemmas: resize propagation\<close>

lemma map_wid_setWindow_present:
  "getWindow s j \<noteq> None \<Longrightarrow> map wid (windows (setWindow j p s)) = map wid (windows s)"
  by (auto simp: setWindow_def notifyChange_def Let_def map_wid_mapSet getWindow_None_iff)

lemma getWindow_present_iff: "getWindow s j \<noteq> None \<longleftrightarrow> j \<in> set (map wid (windows s))"
  by (simp add: getWindow_None_iff)

lemma getWindow_setWindow_present:
  assumes "getWindow s j \<noteq> None"
  shows "getWindow (setWindow j (onlyRect r) s) k = map_option (withRect j r) (getWindow s k)"
proof (cases "k = j")
  case True
  with assms show ?thesis
    by (auto simp: getWindow_setWindow_rect withRect_def dest: getWindow_wid)
next
  case False
  then show ?thesis
    by (cases "getWindow s k") (auto simp: getWindow_setWindow_other withRect_def dest: getWindow_wid)
qed

lemma map_filter_map_option:
  "List.map_filter (\<lambda>k. map_option f (g k)) ks = map f (List.map_filter g ks)"
  by (induction ks) (auto simp: List.map_filter_simps split: option.splits)

lemma getNeighbors_setWindow_present:
  assumes "getWindow s j \<noteq> None"
  shows "getNeighbors (setWindow j (onlyRect r) s) i d = map (withRect j r) (getNeighbors s i d)"
proof -
  have gw: "getWindow (setWindow j (onlyRect r) s) = (\<lambda>k. map_option (withRect j r) (getWindow s k))"
    using getWindow_setWindow_present[OF assms] by (intro ext)
  show ?thesis
    unfolding getNeighbors_def gw
    by (cases "getWindow s i") (simp_all add: map_filter_map_option withRect_def)
qed

lemma getNeighbors_mem:
  assumes "n \<in> set (getNeighbors s i d)"
  shows "getWindow s (wid n) = Some n"
proof -
  from assms obtain k where "getWindow s k = Some n"
    by (cases "getWindow s i") (auto simp: getNeighbors_def List.map_filter_def)
  then show ?thesis using getWindow_wid by fastforce
qed

lemma getNeighbors_nonempty:
  "n \<in> set (getNeighbors s i d) \<Longrightarrow> getWindow s i \<noteq> None"
  by (cases "getWindow s i") (auto simp: getNeighbors_def)

lemma wid_withRect [simp]: "wid (withRect j r n) = wid n"
  by (simp add: withRect_def)

lemma isPresentD: "isPresent s k \<Longrightarrow> getWindow s k \<noteq> None"
  by (simp add: isPresent_def)

lemma neighborsSized_revert:
  assumes "neighborsSized rid s" "isPresent s rid"
  shows "neighborsSized rid (setWindow rid (onlyRect r) s)"
proof -
  have "withRect rid r n = n" if "n \<in> set (getNeighbors s rid d)" for n d
    using assms(1) that by (auto simp: neighborsSized_def withRect_def)
  then have "map (withRect rid r) (getNeighbors s rid d) = getNeighbors s rid d" for d
    by (simp add: map_idI)
  with assms(1) show ?thesis
    by (simp add: neighborsSized_def getNeighbors_setWindow_present[OF isPresentD[OF assms(2)]])
qed

lemma neighborsSized_adjust:
  assumes "neighborsSized rid s" "isPresent s j" "sizeOk r"
  shows "neighborsSized rid (setWindow j (onlyRect r) s)"
proof -
  have "wid (withRect j r n) \<noteq> rid \<and> sizeOk (rect (withRect j r n))"
    if "n \<in> set (getNeighbors s rid d)" for n d
    using assms(1,3) that by (auto simp: neighborsSized_def withRect_def)
  then show ?thesis
    by (simp add: neighborsSized_def getNeighbors_setWindow_present[OF isPresentD[OF assms(2)]])
qed

lemma isPresent_setWindow:
  "isPresent (setWindow j p s) k \<longleftrightarrow> k = j \<or> isPresent s k"
  unfolding isPresent_def
  by (cases "k = j")
     (simp_all add: getWindow_setWindow_other, simp add: setWindow_def getWindow_def notifyChange_def Let_def find_mapSet)

lemma tickOk_revert:
  assumes "tickOk rw rid lr P st" "rid \<in> P"
  shows "tickOk rw rid lr P (setWindow rid (onlyRect lr) (fst st), snd st @ [(rw, lr)])"
  using assms
  by (auto simp: tickOk_def moveOk_def isPresent_setWindow intro: neighborsSized_revert)

lemma tickOk_adjust:
  assumes "tickOk rw rid lr P st" "j \<in> P" "sizeOk r"
  shows "tickOk rw rid lr P (setWindow j (onlyRect r) (fst st), snd st @ [(j, r)])"
  using assms
  by (auto simp: tickOk_def moveOk_def isPresent_setWindow intro: neighborsSized_adjust)

lemma rect_eta: "\<lparr>xpos = xpos r, ypos = ypos r, width = width r, height = height r\<rparr> = (r::Rect)"
  by simp

lemma adjustRightStep_ok:
  assumes "tickOk rw rid lr P st" "rid \<in> P" "wid n \<in> P" "sizeOk (rect n)"
  shows "tickOk rw rid lr P (adjustRightStep env rw rid lr delta st n)"
  using assms(4)
  by (auto simp: adjustRightStep_def Let_def rect_eta assms(1) sizeOk_def
      intro!: tickOk_revert[OF assms(1,2)] tickOk_adjust[OF assms(1,3)])

lemma adjustLeftStep_ok:
  assumes "tickOk rw rid lr P st" "rid \<in> P" "wid n \<in> P" "sizeOk (rect n)"
  shows "tickOk rw rid lr P (adjustLeftStep env rw rid lr delta st n)"
  using assms(4)
  by (auto simp: adjustLeftStep_def Let_def rect_eta assms(1) sizeOk_def
      intro!: tickOk_revert[OF assms(1,2)] tickOk_adjust[OF assms(1,3)])

lemma adjustBottomStep_ok:
  assumes "tickOk rw rid lr P st" "wid n \<in> P" "sizeOk (rect n)"
  shows "tickOk rw rid lr P (adjustBottomStep env delta st n)"
  using assms(3)
  by (auto simp: adjustBottomStep_def Let_def assms(1) sizeOk_def
      intro!: tickOk_adjust[OF assms(1,2)])

lemma adjustTopStep_ok:
  assumes "tickOk rw rid lr P st" "wid n \<in> P" "sizeOk (rect n)"
  shows "tickOk rw rid lr P (adjustTopStep env delta st n)"
  using assms(3)
  by (auto simp: adjustTopStep_def Let_def assms(1) sizeOk_def
      intro!: tickOk_adjust[OF assms(1,2)])

lemma foldl_ok:
  assumes step: "\<And>st n. tickOk rw rid lr P st \<Longrightarrow> n \<in> set ns \<Longrightarrow> tickOk rw rid lr P (f st n)"
    and "tickOk rw rid lr P st"
  shows "tickOk rw rid lr P (foldl f st ns)"
  using assms
proof (induction ns arbitrary: st)
  case Nil
  then show ?case by simp
next
  case (Cons n ns)
  have "tickOk rw rid lr P (f st n)" using Cons.prems by simp
  with Cons show ?case by simp
qed

lemma tickOk_neighbor:
  assumes "tickOk rw rid lr P st" "n \<in> set (getNeighbors (fst st) rid d)"
  shows "rid \<in> P" "wid n \<in> P" "sizeOk (rect n)"
proof -
  from assms(2) have "isPresent (fst st) rid" "isPresent (fst st) (wid n)"
    by (simp_all add: isPresent_def getNeighbors_nonempty getNeighbors_mem)
  with assms(1) show "rid \<in> P" "wid n \<in> P" by (simp_all add: tickOk_def)
  from assms show "sizeOk (rect n)" by (auto simp: tickOk_def neighborsSized_def)
qed

lemma adjustRightNeighbors_ok:
  assumes "tickOk rw rid lr P st"
  shows "tickOk rw rid lr P (adjustRightNeighbors env rw rid lr delta st)"
  unfolding adjustRightNeighbors_def
proof (rule foldl_ok[OF _ assms])
  fix st' n
  assume 1: "tickOk rw rid lr P st'" and 2: "n \<in> set (getNeighbors (fst st) rid DRight)"
  from 1 tickOk_neighbor[OF assms 2]
  show "tickOk rw rid lr P (adjustRightStep env rw rid lr delta st' n)"
    by (intro adjustRightStep_ok)
qed

lemma adjustLeftNeighbors_ok:
  assumes "tickOk rw rid lr P st"
  shows "tickOk rw rid lr P (adjustLeftNeighbors env rw rid lr delta st)"
  unfolding adjustLeftNeighbors_def
proof (rule foldl_ok[OF _ assms])
  fix st' n
  assume 1: "tickOk rw rid lr P st'" and 2: "n \<in> set (getNeighbors (fst st) rid DLeft)"
  from 1 tickOk_neighbor[OF assms 2]
  show "tickOk rw rid lr P (adjustLeftStep env rw rid lr delta st' n)"
    by (intro adjustLeftStep_ok)
qed

lemma adjustBottomNeighbors_ok:
  assumes "tickOk rw rid lr P st"
  shows "tickOk rw rid lr P (adjustBottomNeighbors env rid delta st)"
  unfolding adjustBottomNeighbors_def
proof (rule foldl_ok[OF _ assms])
  fix st' n
  assume 1: "tickOk rw rid lr P st'" and 2: "n \<in> set (getNeighbors (fst st) rid DBottom)"
  from 1 tickOk_neighbor[OF assms 2]
  show "tickOk rw rid lr P (adjustBottomStep env delta st' n)"
    by (intro adjustBottomStep_ok)
qed

lemma adjustTopNeighbors_ok:
  assumes "tickOk rw rid lr P st"
  shows "tickOk rw rid lr P (adjustTopNeighbors env rid delta st)"
  unfolding adjustTopNeighbors_def
proof (rule foldl_ok[OF _ assms])
  fix st' n
  assume 1: "tickOk rw rid lr P st'" and 2: "n \<in> set (getNeighbors (fst st) rid DTop)"
  from 1 tickOk_neighbor[OF assms 2]
  show "tickOk rw rid lr P (adjustTopStep env delta st' n)"
    by (intro adjustTopStep_ok)
qed

lemmas three_defs = threeTiles_def threeTilesBare_def topRight_def bottomRight_def
  threeDesktop_def growingRight_def grownLeft_def shrunkBottomRight_def

lemma recalculate_threeTiles: "recalculateNeighbors threeTilesBare = threeTiles"
  by (simp add: recalculateNeighbors_def getTiledWindows_def findNeighbors_def
      findNeighborsStep_def Let_def geometry_defs example_defs three_defs)

lemma threeTiles_neighbors:
  "getNeighbors threeTiles 2 DRight =
     [tile 3 topRight (emptyNeighbors\<lparr>nleft := [2], nbottom := [4]\<rparr>),
      tile 4 bottomRight (emptyNeighbors\<lparr>nleft := [2], ntop := [3]\<rparr>)]"
  "getNeighbors threeTiles 2 DLeft = []"
  "getNeighbors threeTiles 2 DTop = []"
  "getNeighbors threeTiles 2 DBottom = []"
  by (simp_all add: getNeighbors_def getWindow_def List.map_filter_def threeTiles_def tile_def
      emptyNeighbors_def)

lemma threeTiles_adjustRight:
  "adjustRightNeighbors threeDesktop 2 2 leftHalf 50 (threeTiles, []) =
     (\<lparr>windows = [tile 2 leftHalf (emptyNeighbors\<lparr>nright := [3, 4]\<rparr>),
                  tile 3 topRight (emptyNeighbors\<lparr>nleft := [2], nbottom := [4]\<rparr>),
                  tile 4 shrunkBottomRight (emptyNeighbors\<lparr>nleft := [2], ntop := [3]\<rparr>)],
       changes = 2\<rparr>,
      [(2, leftHalf), (4, shrunkBottomRight)])"
  unfolding adjustRightNeighbors_def fst_conv threeTiles_neighbors
  by (simp add: adjustRightStep_def getMetaWindow_def setWindow_def getWindow_def
      notifyChange_def onlyRect_def noFields_def Let_def MIN_WINDOW_WIDTH_def
      example_defs three_defs)

lemma threeTiles_tick:
  "handleResizeUpdate threeDesktop grownLeft growingRight (threeTiles, []) =
     (growingRight\<lparr>lastRect := Some grownLeft\<rparr>,
      \<lparr>windows = [tile 2 grownLeft (emptyNeighbors\<lparr>nright := [3, 4]\<rparr>),
                  tile 3 topRight (emptyNeighbors\<lparr>nleft := [2], nbottom := [4]\<rparr>),
                  tile 4 shrunkBottomRight (emptyNeighbors\<lparr>nleft := [2], ntop := [3]\<rparr>)],
       changes = 3\<rparr>,
      [(2, leftHalf), (4, shrunkBottomRight)])"
proof -
  have d: "xpos grownLeft + width grownLeft - (xpos leftHalf + width leftHalf) = 50"
    by (simp add: grownLeft_def leftHalf_def)
  show ?thesis
    unfolding handleResizeUpdate_def
    by (simp add: growingRight_def getResizeEdges_def d threeTiles_adjustRight Let_def)
      (simp add: setWindow_def getWindow_def notifyChange_def onlyRect_def noFields_def Let_def
        tile_def)
qed

section \<open>Lemmas: redistribution after removal\<close>

lemma find_map_wid:
  assumes "\<And>w. wid (f w) = wid w"
  shows "find (\<lambda>v. wid v = i) (map f ws) = map_option f (find (\<lambda>v. wid v = i) ws)"
  by (induction ws) (simp_all add: assms)

lemma getWindow_recalculateNeighbors:
  "getWindow (recalculateNeighbors s) i =
     map_option (\<lambda>w. if isTiled w then w\<lparr>neighbors := findNeighbors w (getTiledWindows s)\<rparr> else w)
       (getWindow s i)"
  by (simp add: recalculateNeighbors_def getWindow_def Let_def find_map_wid)

lemma rect_recalculateNeighbors:
  "map_option rect (getWindow (recalculateNeighbors s) i) = map_option rect (getWindow s i)"
  by (cases "getWindow s i") (simp_all add: getWindow_recalculateNeighbors)

lemma zone_recalculateNeighbors:
  "map_option zone (getWindow (recalculateNeighbors s) i) = map_option zone (getWindow s i)"
  by (cases "getWindow s i") (simp_all add: getWindow_recalculateNeighbors)

lemma rect_setWindow_same:
  "map_option rect (getWindow (setWindow i (onlyRect r) s) i) = Some r"
  by (simp add: getWindow_setWindow_rect split: option.split)

lemma foldl_redistribute_other:
  "j \<notin> wid ` set ts \<Longrightarrow>
     getWindow (fst (fst (foldl (redistributeStep env wa g w) acc ts))) j = getWindow (fst (fst acc)) j"
  by (induction ts arbitrary: acc)
     (simp_all add: redistributeStep_def Let_def getWindow_setWindow_other)

lemma foldl_redistribute_rect:
  "distinct (map wid ts) \<Longrightarrow> i < length ts \<Longrightarrow>
     map_option rect (getWindow (fst (fst (foldl (redistributeStep env wa g w) acc ts))) (wid (ts ! i)))
       = Some \<lparr>xpos = snd acc + int i * (w + g), ypos = ypos wa + g,
               width = w, height = height wa - g * 2\<rparr>"
proof (induction ts arbitrary: acc i)
  case Nil
  then show ?case by simp
next
  case (Cons t ts)
  show ?case
  proof (cases i)
    case 0
    from Cons.prems have "wid t \<notin> wid ` set ts" by simp
    then show ?thesis
      by (simp add: 0 foldl_redistribute_other del: map_option_eq_Some)
         (simp add: redistributeStep_def Let_def rect_setWindow_same del: map_option_eq_Some)
  next
    case (Suc i')
    with Cons.prems have "distinct (map wid ts)" "i' < length ts" by simp_all
    from Cons.IH[OF this, of "redistributeStep env wa g w acc t"]
    show ?thesis
      by (simp add: Suc del: map_option_eq_Some)
         (simp add: redistributeStep_def Let_def algebra_simps del: map_option_eq_Some)
  qed
qed


lemma distinct_tiled: "wellFormed s \<Longrightarrow> distinct (map wid (getTiledWindows s))"
  by (simp add: wellFormed_def getTiledWindows_def distinct_map_filter)

lemma redistributeAfterRemoval_unfold:
  assumes "getTiledWindows s = ts" "ts \<noteq> []" "findMetaWindow env (wid (hd ts))"
  shows "redistributeAfterRemoval env wa (s, moves) =
     (let acc = foldl (redistributeStep env wa INNER_GAP
                  ((width wa - INNER_GAP * (int (length ts) + 1)) div int (length ts)))
                  ((s, moves), xpos wa + INNER_GAP) ts
      in (recalculateNeighbors (fst (fst acc)), snd (fst acc)))"
  using assms by (cases ts) (simp_all add: redistributeAfterRemoval_def Let_def)

lemmas thirds_defs = thirdLeft_def thirdMiddle_def thirdRight_def fullHD_def threeThirds_def
  desktop234_def

lemma remove_middle_third:
  "map (\<lambda>w. (wid w, rect w)) (windows (fst (onWindowRemoved desktop234 fullHD 3 (threeThirds, []))))
     = [(2, leftHalf), (4, rightHalf)]"
  by (simp add: onWindowRemoved_def removeWindow_def redistributeAfterRemoval_def
      redistributeStep_def getTiledWindows_def getWindow_def removeFromNeighbors_def
      findMetaWindow_def notifyChange_def setWindow_def onlyRect_def noFields_def
      recalculateNeighbors_def INNER_GAP_def Let_def thirds_defs example_defs)

lemma removeWindow_threeThirds: "removeWindow 3 threeThirds = afterRemoval"
  by (simp add: removeWindow_def getWindow_def removeFromNeighbors_def notifyChange_def
      afterRemoval_def thirds_defs example_defs)







text \<open>
The entries \<^verbatim>\<open>removeWindow\<close> leaves in the store.
\<close>

lemma getWindow_removeWindow_other:
  assumes "j \<noteq> i" "getWindow s i \<noteq> None"
  shows "getWindow (removeWindow i s) j =
           map_option (\<lambda>w. w\<lparr>neighbors :=
              \<lparr>nleft = filter (\<lambda>k. k \<noteq> i) (nleft (neighbors w)),
               nright = filter (\<lambda>k. k \<noteq> i) (nright (neighbors w)),
               ntop = filter (\<lambda>k. k \<noteq> i) (ntop (neighbors w)),
               nbottom = filter (\<lambda>k. k \<noteq> i) (nbottom (neighbors w))\<rparr>\<rparr>) (getWindow s j)"
proof -
  have f: "find (\<lambda>v. wid v = j) (filter (\<lambda>w. wid w \<noteq> i) ws) = find (\<lambda>v. wid v = j) ws" for ws
    using assms(1) by (induction ws) auto
  show ?thesis
    using assms(2)
    by (simp add: removeWindow_def notifyChange_def getWindow_def removeFromNeighbors_def
        find_map_wid f)
qed

section \<open>Lemmas: rounding to a double\<close>

text \<open>
  Rounding to the nearest double moves a nonnegative number up by at most the factor
  \<open>1 + 2^-53\<close>, and keeps the sign.
\<close>

lemma roundEven_upper: "of_int (roundEven z) \<le> z + 1 / 2"
proof -
  define d where "d = z - of_int \<lfloor>z\<rfloor>"
  have z: "z = of_int \<lfloor>z\<rfloor> + d" by (simp add: d_def)
  have d0: "0 \<le> d" by (simp add: d_def)
  consider "d < 1 / 2" | "1 / 2 < d" | "d = 1 / 2" by linarith
  then show ?thesis
  proof cases
    case 1
    then have "roundEven z = \<lfloor>z\<rfloor>" by (simp add: roundEven_def Let_def d_def)
    with d0 z show ?thesis by linarith
  next
    case 2
    then have "roundEven z = \<lfloor>z\<rfloor> + 1" by (simp add: roundEven_def Let_def d_def)
    with 2 z show ?thesis by simp
  next
    case 3
    then have "roundEven z = \<lfloor>z\<rfloor> \<or> roundEven z = \<lfloor>z\<rfloor> + 1"
      by (simp add: roundEven_def Let_def d_def)
    with 3 z show ?thesis by auto
  qed
qed

lemma roundEven_nonneg: "0 \<le> z \<Longrightarrow> 0 \<le> roundEven z"
  by (auto simp: roundEven_def Let_def)

lemma roundEven_nonpos: "z \<le> 0 \<Longrightarrow> roundEven z \<le> 0"
proof -
  assume z: "z \<le> 0"
  show ?thesis
  proof (cases "z = 0")
    case True
    then show ?thesis by (simp add: roundEven_def)
  next
    case False
    with z have "z < 0" by simp
    then have "\<lfloor>z\<rfloor> \<le> -1" by (simp add: floor_le_iff)
    then show ?thesis
      by (auto simp: roundEven_def Let_def)
  qed
qed

lemma binaryExponent_le:
  assumes "0 < y"
  shows "2 powi (binaryExponent y) \<le> y"
proof (cases "1 \<le> y")
  case True
  then have m: "0 < \<lfloor>y\<rfloor>" by (simp add: zero_less_floor)
  from bitlen_bounds[OF m] have "2 ^ nat (bitlen \<lfloor>y\<rfloor> - 1) \<le> \<lfloor>y\<rfloor>" by simp
  then have "(of_int (2 ^ nat (bitlen \<lfloor>y\<rfloor> - 1)) :: rat) \<le> of_int \<lfloor>y\<rfloor>"
    by (simp only: of_int_le_iff)
  also have "\<dots> \<le> y" by simp
  finally have "(2::rat) ^ nat (bitlen \<lfloor>y\<rfloor> - 1) \<le> y" by simp
  moreover have "0 \<le> bitlen \<lfloor>y\<rfloor> - 1"
  proof (rule ccontr)
    assume "\<not> 0 \<le> bitlen \<lfloor>y\<rfloor> - 1"
    then have "nat (bitlen \<lfloor>y\<rfloor>) = 0" by simp
    with bitlen_bounds[OF m] have "\<lfloor>y\<rfloor> < 1" by simp
    with m show False by simp
  qed
  ultimately show ?thesis using True
    by (simp add: binaryExponent_def power_int_def)
next
  case False
  with assms have y: "0 < y" "y < 1" by simp_all
  define c where "c = \<lceil>1 / y\<rceil>"
  have "1 < 1 / y" using y by simp
  then have c2: "1 < c" unfolding c_def by (simp add: less_ceiling_iff)
  then have cp: "0 < c - 1" by simp
  from bitlen_bounds[OF cp] have "c - 1 < 2 ^ nat (bitlen (c - 1))" by simp
  then have "c \<le> 2 ^ nat (bitlen (c - 1))" by simp
  then have "(of_int c :: rat) \<le> of_int (2 ^ nat (bitlen (c - 1)))"
    by (simp only: of_int_le_iff)
  also have "\<dots> = (2::rat) ^ nat (bitlen (c - 1))" by simp
  finally have "(of_int c :: rat) \<le> 2 ^ nat (bitlen (c - 1))" .
  moreover have "1 / y \<le> of_int c" unfolding c_def by simp
  ultimately have "1 / y \<le> (2::rat) ^ nat (bitlen (c - 1))" by (rule order_trans[rotated])
  then have "1 / (2::rat) ^ nat (bitlen (c - 1)) \<le> y"
    using y by (simp add: field_simps)
  moreover have "(2::rat) powi (- bitlen (c - 1)) = 1 / 2 ^ nat (bitlen (c - 1))"
  proof -
    have "(2::rat) powi (- bitlen (c - 1)) = inverse (2 powi bitlen (c - 1))"
      by (rule power_int_minus)
    also have "(2::rat) powi bitlen (c - 1) = 2 ^ nat (bitlen (c - 1))"
      using bitlen_nonneg[of "c - 1"] by (simp add: power_int_def)
    finally show ?thesis by (simp add: inverse_eq_divide)
  qed
  moreover have "binaryExponent y = - bitlen (c - 1)"
    using False by (simp add: binaryExponent_def c_def)
  ultimately show ?thesis by simp
qed

lemma roundDouble_upper:
  assumes "0 \<le> x"
  shows "roundDouble x \<le> x * (1 + 1 / 2 ^ 53)"
proof (cases "x = 0")
  case True
  then show ?thesis by (simp add: roundDouble_def)
next
  case False
  with assms have x: "0 < x" by simp
  define e where "e = binaryExponent x"
  define q :: rat where "q = 2 powi (e - 52)"
  have qp: "0 < q" by (simp add: q_def)
  have r: "roundDouble x = of_int (roundEven (x / q)) * q"
    using x by (simp add: roundDouble_def Let_def e_def q_def)
  have "of_int (roundEven (x / q)) * q \<le> (x / q + 1 / 2) * q"
    using roundEven_upper[of "x / q"] qp by (simp add: mult_right_mono)
  also have "\<dots> = x + q / 2" using qp by (simp add: field_simps)
  also have "q / 2 = 2 powi e / 2 ^ 53"
    by (simp add: q_def power_int_diff)
  also have "2 powi e / 2 ^ 53 \<le> x / 2 ^ 53"
    using binaryExponent_le[OF x] by (simp add: e_def divide_right_mono)
  finally show ?thesis by (simp add: r algebra_simps)
qed

lemma roundDouble_nonneg: "0 \<le> x \<Longrightarrow> 0 \<le> roundDouble x"
  by (auto simp: roundDouble_def Let_def intro!: mult_nonneg_nonneg roundEven_nonneg divide_nonneg_pos)

lemma roundDouble_nonpos: "x \<le> 0 \<Longrightarrow> roundDouble x \<le> 0"
proof -
  assume x: "x \<le> 0"
  have "of_int (roundEven (x / q)) * q \<le> 0" if "0 < q" for q :: rat
  proof -
    have "x / q \<le> 0" using x that by (simp add: divide_nonpos_pos)
    then have "of_int (roundEven (x / q)) \<le> (0::rat)" using roundEven_nonpos by simp
    with that show ?thesis by (simp add: mult_nonpos_nonneg)
  qed
  then show ?thesis by (simp add: roundDouble_def Let_def)
qed

text \<open>
  Some values: the doubles nearest to \<open>1/10\<close> and \<open>1/3\<close>, and the scaled width of a
  window of width 1136 in a row of three with 2550 pixels left, which is
  \<open>849.9999999999999\<close> before \<^verbatim>\<open>Math.floor\<close>.
\<close>

lemma roundDouble_examples:
  "roundDouble (1 / 10) = 3602879701896397 / 36028797018963968"
  "roundDouble (1 / 3) = 6004799503160661 / 18014398509481984"
  "roundDouble (- (1 / 10)) = - (3602879701896397 / 36028797018963968)"
  "roundDouble 1920 = 1920"
  "roundDouble (2550 / 3408) = 3369770847944473 / 4503599627370496"
  "roundDouble (1136 * (3369770847944473 / 4503599627370496)) = 7476679068876799 / 8796093022208"
  "scaleWidth 1136 2550 3408 = 849"
  by code_simp+

section \<open>Lemmas: insertion\<close>

lemma div_as_floor: "a div b = \<lfloor>(of_int a :: rat) / of_int b\<rfloor>"
  by (simp only: floor_divide_of_int_eq)

lemma le_div_iff_int: "0 < b \<Longrightarrow> k \<le> a div b \<longleftrightarrow> k * b \<le> (a::int)"
proof -
  assume b: "0 < b"
  have "k \<le> a div b \<longleftrightarrow> (of_int k :: rat) \<le> of_int a / of_int b"
    unfolding div_as_floor by (rule le_floor_iff)
  also have "\<dots> \<longleftrightarrow> (of_int k :: rat) * of_int b \<le> of_int a"
    using b by (simp add: pos_le_divide_eq)
  also have "\<dots> \<longleftrightarrow> k * b \<le> a"
    by (simp only: of_int_mult[symmetric] of_int_le_iff)
  finally show ?thesis .
qed

lemma div_less_iff_int: "0 < b \<Longrightarrow> a div b < k \<longleftrightarrow> (a::int) < k * b"
  using le_div_iff_int[of b k a] by linarith

lemma foldl_widths: "foldl (\<lambda>sum w. sum + width (rect w)) a ws = a + sum_list (map (\<lambda>w. width (rect w)) ws)"
  by (induction ws arbitrary: a) simp_all

lemma sum_list_const: "sum_list (map (\<lambda>x. c) xs) = int (length xs) * (c::int)"
  by (induction xs) (simp_all add: algebra_simps)

lemma sum_list_take_drop_insert:
  "sum_list (take k ws @ v # drop k ws) = v + sum_list (ws::int list)"
proof -
  have "sum_list (take k ws) + sum_list (drop k ws) = sum_list ws"
    by (metis sum_list_append append_take_drop_id)
  then show ?thesis by simp
qed

lemma set_take_drop_insert: "set (take k ws @ v # drop k ws) = insert v (set ws)"
proof -
  have "set (take k ws) \<union> set (drop k ws) = set ws"
    by (metis set_append append_take_drop_id)
  then show ?thesis by simp
qed

text \<open>
The operators on integers.
\<close>

lemma jsPlus_int [simp]: "jsPlus (jsInt a) (jsInt b) = jsInt (a + b)"
  by (simp add: jsInt_def)

lemma jsMinus_int [simp]: "jsMinus (jsInt a) (jsInt b) = jsInt (a - b)"
  by (simp add: jsInt_def jsMinus_def)

lemma jsLess_int [simp]: "jsLess (jsInt a) (jsInt b) \<longleftrightarrow> a < b"
  by (simp add: jsInt_def)

lemma jsMax_int [simp]: "jsMax (jsInt a) (jsInt b) = jsInt (max a b)"
  by (simp add: jsInt_def max_def)

lemma jsFloor_Num: "jsFloor (Num q) = jsInt \<lfloor>q\<rfloor>"
  by (simp add: jsInt_def)

lemma jsCeil_Num: "jsCeil (Num q) = jsInt \<lceil>q\<rceil>"
  by (simp add: jsInt_def)

lemma jsDivide_int:
  "b \<noteq> 0 \<Longrightarrow> jsDivide (jsInt a) (jsInt b) = Num (roundDouble (of_int a / of_int b))"
  by (simp add: jsInt_def)

lemma jsTimes_int_Num: "jsTimes (jsInt a) (Num q) = Num (roundDouble (of_int a * q))"
  by (simp add: jsInt_def)

lemma jsInt_inject [simp]: "jsInt a = jsInt b \<longleftrightarrow> a = b"
  by (simp add: jsInt_def)

lemma inj_jsInt: "inj jsInt"
  by (simp add: inj_def)

text \<open>
The loops of the planner.
\<close>

lemma findInsertIndex_bounds:
  "i \<le> findInsertIndex position i ts \<and> findInsertIndex position i ts \<le> i + length ts"
proof (induction ts arbitrary: i)
  case Nil
  then show ?case by simp
next
  case (Cons t ts)
  from Cons[of "Suc i"] show ?case by auto
qed

lemma repositionLoop_after:
  "insertIndex < i \<Longrightarrow> remaining = length ex \<Longrightarrow>
     \<exists>plan. repositionLoop wa g newId newW insertIndex remaining i ex cx = Some plan
       \<and> map (\<lambda>p. pwidth (snd p)) plan = map snd ex
       \<and> (\<forall>p \<in> set plan. pheight (snd p) = height wa - g * 2)"
proof (induction ex arbitrary: remaining i cx)
  case Nil
  then show ?case by simp
next
  case (Cons e ex)
  obtain tid w where e: "e = (tid, w)" by (cases e)
  from Cons.prems obtain k where k: "remaining = Suc k" "k = length ex" by simp
  from Cons.IH[of "Suc i" k "jsPlus cx (jsPlus w (jsInt g))"] Cons.prems(1) k
  obtain plan where "repositionLoop wa g newId newW insertIndex k (Suc i) ex (jsPlus cx (jsPlus w (jsInt g))) = Some plan"
    "map (\<lambda>p. pwidth (snd p)) plan = map snd ex" "\<forall>p \<in> set plan. pheight (snd p) = height wa - g * 2"
    by auto
  with Cons.prems(1) show ?case by (simp add: k e)
qed

lemma repositionLoop_widths:
  "insertIndex = i + k \<Longrightarrow> k \<le> length ex \<Longrightarrow> remaining = Suc (length ex) \<Longrightarrow>
     \<exists>plan. repositionLoop wa g newId newW insertIndex remaining i ex cx = Some plan
       \<and> map (\<lambda>p. pwidth (snd p)) plan = take k (map snd ex) @ jsInt newW # drop k (map snd ex)
       \<and> (\<forall>p \<in> set plan. pheight (snd p) = height wa - g * 2)"
proof (induction k arbitrary: i ex remaining cx)
  case 0
  from repositionLoop_after[of insertIndex "Suc i" "length ex" ex wa g newId newW
      "jsPlus cx (jsInt (newW + g))"] 0
  obtain plan where "repositionLoop wa g newId newW insertIndex (length ex) (Suc i) ex
       (jsPlus cx (jsInt (newW + g))) = Some plan"
    "map (\<lambda>p. pwidth (snd p)) plan = map snd ex" "\<forall>p \<in> set plan. pheight (snd p) = height wa - g * 2"
    by auto
  with 0 show ?case by simp
next
  case (Suc k)
  then obtain e ex' where ex: "ex = e # ex'" by (cases ex) auto
  obtain tid w where e: "e = (tid, w)" by (cases e)
  from Suc.prems ex have "insertIndex = Suc i + k" "k \<le> length ex'" by simp_all
  from Suc.IH[OF this, of "Suc (length ex')" "jsPlus cx (jsPlus w (jsInt g))"]
  obtain plan where "repositionLoop wa g newId newW insertIndex (Suc (length ex')) (Suc i) ex'
       (jsPlus cx (jsPlus w (jsInt g))) = Some plan"
    "map (\<lambda>p. pwidth (snd p)) plan = take k (map snd ex') @ jsInt newW # drop k (map snd ex')"
    "\<forall>p \<in> set plan. pheight (snd p) = height wa - g * 2"
    by auto
  with Suc.prems show ?case by (simp add: ex e)
qed

lemma enforceMinStep_fold_length:
  "length (fst (foldl (enforceMinStep f) acc ts)) = length (fst acc) + length ts"
  by (induction ts arbitrary: acc) (simp_all add: enforceMinStep_def Let_def)

lemma shrinkWidths_length: "length (shrinkWidths e c n ws) = length ws"
  by (simp add: shrinkWidths_def Let_def)

lemma enforceMinStep_fold:
  "t \<noteq> 0 \<Longrightarrow>
   foldl (enforceMinStep (jsDivide (jsInt r) (jsInt t))) (map jsInt ws0, jsInt s0, c0) ts
     = (map jsInt (ws0 @ map (\<lambda>x. max MIN_WINDOW_WIDTH (scaleWidth (width (rect x)) r t)) ts),
        jsInt (s0 + sum_list (map (\<lambda>x. max MIN_WINDOW_WIDTH (scaleWidth (width (rect x)) r t)) ts)),
        c0 + length (filter (\<lambda>x. scaleWidth (width (rect x)) r t < MIN_WINDOW_WIDTH) ts))"
proof (induction ts arbitrary: ws0 s0 c0)
  case Nil
  then show ?case by simp
next
  case (Cons x ts)
  let ?v = "scaleWidth (width (rect x)) r t"
  have step: "enforceMinStep (jsDivide (jsInt r) (jsInt t)) (map jsInt ws0, jsInt s0, c0) x
      = (map jsInt (ws0 @ [max MIN_WINDOW_WIDTH ?v]), jsInt (s0 + max MIN_WINDOW_WIDTH ?v),
         if ?v < MIN_WINDOW_WIDTH then Suc c0 else c0)"
    using Cons.prems
    by (simp add: enforceMinStep_def Let_def jsDivide_int jsTimes_int_Num jsFloor_Num
        scaleWidth_def max_def del: jsFloor.simps)
  show ?case
    unfolding foldl_Cons step Cons.IH[OF Cons.prems]
    by (simp add: add.assoc)
qed

lemma insertPlan_shape:
  assumes ne: "tiledWindows \<noteq> []"
  shows "\<exists>plan k ws. insertPlan wa newId position tiledWindows = Some plan
       \<and> length plan = length tiledWindows + 1
       \<and> map (\<lambda>p. pwidth (snd p)) plan = take k ws @ jsInt (plannedNewWidth wa tiledWindows) # drop k ws
       \<and> (foldl (\<lambda>sum w. sum + width (rect w)) 0 tiledWindows \<noteq> 0
            \<longrightarrow> ws = map jsInt (plannedWidths wa tiledWindows))
       \<and> (\<forall>p \<in> set plan. pheight (snd p) = height wa - INNER_GAP * 2)"
proof -
  define k where "k = findInsertIndex position 0 tiledWindows"
  have kb: "k \<le> length tiledWindows" using findInsertIndex_bounds[of 0 position tiledWindows]
    by (simp add: k_def)
  define newW where "newW = plannedNewWidth wa tiledWindows"
  define avail where "avail = availableWidth wa tiledWindows"
  define total where "total = foldl (\<lambda>sum w. sum + width (rect w)) 0 tiledWindows"
  define r where "r = foldl (enforceMinStep (jsDivide (jsInt (avail - newW)) (jsInt total)))
                        ([], jsInt 0, 0) tiledWindows"
  define ws where "ws = shrinkWidths (jsMinus (jsPlus (fst (snd r)) (jsInt newW)) (jsInt avail))
                          (snd (snd r)) (length tiledWindows) (fst r)"
  have len: "length ws = length tiledWindows"
    by (simp add: ws_def shrinkWidths_length r_def enforceMinStep_fold_length)
  let ?ex = "zip (map wid tiledWindows) ws"
  have sn: "map snd ?ex = ws" using len by simp
  from repositionLoop_widths[of k 0 k ?ex "Suc (length tiledWindows)" wa INNER_GAP newId newW
      "jsInt (xpos wa + INNER_GAP)"] kb len
  obtain plan where p: "repositionLoop wa INNER_GAP newId newW k (Suc (length tiledWindows)) 0 ?ex
       (jsInt (xpos wa + INNER_GAP)) = Some plan"
    "map (\<lambda>p. pwidth (snd p)) plan = take k ws @ jsInt newW # drop k ws"
    "\<forall>p \<in> set plan. pheight (snd p) = height wa - INNER_GAP * 2"
    unfolding sn by auto
  have ip: "insertPlan wa newId position tiledWindows = Some plan"
    using p(1) ne
    unfolding insertPlan_def Let_def ws_def r_def newW_def k_def plannedNewWidth_def
      availableWidth_def avail_def total_def
    by (simp add: algebra_simps)
  have "length (map (\<lambda>p. pwidth (snd p)) plan) = length ws + 1"
    unfolding p(2) by simp
  then have lp: "length plan = length tiledWindows + 1" by (simp add: len)
  have fin: "ws = map jsInt (plannedWidths wa tiledWindows)" if t: "total \<noteq> 0"
  proof -
    have r': "r = (map jsInt (clampedWidths wa tiledWindows),
                   jsInt (sum_list (clampedWidths wa tiledWindows)),
                   raisedCount wa tiledWindows)"
      unfolding r_def
      using enforceMinStep_fold[OF t, of "avail - newW" "[]" 0 0 tiledWindows]
      by (simp add: clampedWidths_def raisedCount_def avail_def newW_def total_def)
    show ?thesis
      unfolding ws_def r' fst_conv snd_conv
      by (simp add: shrinkWidths_def plannedWidths_def Let_def jsDivide_int jsCeil_Num
          del: jsCeil.simps flip: avail_def newW_def)
  qed
  from ip lp p(2,3) fin show ?thesis
    unfolding newW_def total_def by blast
qed

lemma plannedNewWidth_min: "MIN_WINDOW_WIDTH \<le> plannedNewWidth wa tiledWindows"
  by (simp add: plannedNewWidth_def)

lemma clampedWidths_min: "\<forall>v \<in> set (clampedWidths wa tiledWindows). MIN_WINDOW_WIDTH \<le> v"
  by (simp add: clampedWidths_def)

lemma plannedWidths_min: "\<forall>v \<in> set (plannedWidths wa tiledWindows). MIN_WINDOW_WIDTH \<le> v"
  using clampedWidths_min[of wa tiledWindows]
  by (auto simp: plannedWidths_def Let_def)

lemma plannedWidths_length: "length (plannedWidths wa tiledWindows) = length tiledWindows"
  by (simp add: plannedWidths_def Let_def clampedWidths_def)


text \<open>
  The scaled width of a window in a row of \<open>n\<close> equal windows is at most
  \<open>floor(remainingWidth / n)\<close>: the two roundings cannot lift the product over the next
  integer while \<open>remainingWidth < 2^51\<close>. It can be smaller, see \<open>threeWide_plan\<close> below,
  where \<open>floor(2550 / 3) = 850\<close> and the planner computes 849.
\<close>

lemma floor_le_div:
  assumes z: "z \<le> (of_int r / of_int n) * (1 + 1 / 2 ^ 53) * (1 + 1 / 2 ^ 53)"
    and r: "0 \<le> r" "r < 2 ^ 51" and n: "0 < n"
  shows "\<lfloor>z :: rat\<rfloor> \<le> r div n"
proof -
  define d where "d = r div n"
  define c :: rat where "c = (1 + 1 / 2 ^ 53) * (1 + 1 / 2 ^ 53)"
  have zc: "z \<le> (of_int r / of_int n) * c"
    using z by (simp only: c_def mult.assoc)
  have rq: "(of_int r :: rat) < 2 ^ 51"
  proof -
    have "(of_int r :: rat) < of_int (2 ^ 51)" using r(2) by (simp only: of_int_less_iff)
    then show ?thesis by simp
  qed
  have r0: "(0::rat) \<le> of_int r" using r(1) by simp
  have c: "c \<le> 1 + 1 / 2 ^ 51" by (simp add: c_def)
  have "of_int r * c \<le> of_int r * (1 + 1 / 2 ^ 51 :: rat)"
    using c r0 by (rule mult_left_mono)
  also have "\<dots> = of_int r + of_int r / 2 ^ 51" by (simp add: algebra_simps)
  also have "\<dots> < of_int r + 1" using rq by simp
  finally have up: "of_int r * c < (of_int r + 1 :: rat)" .
  have "r < (d + 1) * n"
    using div_less_iff_int[OF n, of r "d + 1"] by (simp add: d_def)
  then have "r + 1 \<le> (d + 1) * n" by simp
  then have "(of_int (r + 1) :: rat) \<le> of_int ((d + 1) * n)" by (simp only: of_int_le_iff)
  then have le: "(of_int r + 1 :: rat) \<le> (of_int d + 1) * of_int n" by simp
  have nq: "(0::rat) < of_int n" using n by simp
  have "z * of_int n \<le> of_int r * c"
  proof -
    have "z * of_int n \<le> ((of_int r / of_int n) * c) * of_int n"
      using zc nq by (simp only: mult_le_cancel_right_pos)
    also have "\<dots> = of_int r * c"
      using nq by simp
    finally show ?thesis .
  qed
  with up le have "z * of_int n < (of_int d + 1) * of_int n" by linarith
  then have "z < of_int d + 1" using nq by (simp only: mult_less_cancel_right_pos)
  then have "z < of_int (d + 1)" by simp
  then have "\<lfloor>z\<rfloor> < d + 1" by (simp only: floor_less_iff)
  then show ?thesis by (simp add: d_def)
qed

lemma scaleWidth_equal_upper:
  assumes r: "0 \<le> r" "r < 2 ^ 51" and n: "0 < n" and w: "0 < w"
  shows "scaleWidth w r (n * w) \<le> r div n"
proof -
  define x :: rat where "x = of_int r / of_int (n * w)"
  have x0: "0 \<le> x" using r(1) n w by (simp add: x_def)
  have f0: "0 \<le> roundDouble x" using x0 by (rule roundDouble_nonneg)
  have wq: "(0::rat) < of_int w" using w by simp
  have p0: "0 \<le> of_int w * roundDouble x" using f0 wq by simp
  have "roundDouble (of_int w * roundDouble x) \<le> (of_int w * roundDouble x) * (1 + 1 / 2 ^ 53)"
    using p0 by (rule roundDouble_upper)
  also have "\<dots> \<le> (of_int w * (x * (1 + 1 / 2 ^ 53))) * (1 + 1 / 2 ^ 53)"
  proof -
    have "roundDouble x \<le> x * (1 + 1 / 2 ^ 53)" using x0 by (rule roundDouble_upper)
    then have "of_int w * roundDouble x \<le> of_int w * (x * (1 + 1 / 2 ^ 53))"
      using wq by (simp only: mult_le_cancel_left_pos)
    then show ?thesis by (rule mult_right_mono) simp
  qed
  also have "of_int w * x = of_int r / of_int n"
    using w n by (simp add: x_def)
  then have "(of_int w * (x * (1 + 1 / 2 ^ 53))) * (1 + 1 / 2 ^ 53)
      = (of_int r / of_int n) * (1 + 1 / 2 ^ 53) * (1 + 1 / 2 ^ 53)"
    by (simp only: mult.assoc[symmetric])
  finally have "roundDouble (of_int w * roundDouble x)
      \<le> (of_int r / of_int n) * (1 + 1 / 2 ^ 53) * (1 + 1 / 2 ^ 53)" .
  from floor_le_div[OF this r n] show ?thesis
    by (simp add: scaleWidth_def x_def)
qed

lemma scaleWidth_nonpos:
  assumes r: "r \<le> 0" and t: "0 < t" and w: "0 < w"
  shows "scaleWidth w r t \<le> 0"
proof -
  define x :: rat where "x = of_int r / of_int t"
  have "x \<le> 0" using r t by (simp add: x_def divide_nonpos_pos)
  then have "roundDouble x \<le> 0" by (rule roundDouble_nonpos)
  then have "of_int w * roundDouble x \<le> 0" using w by (simp add: mult_nonneg_nonpos)
  then have "roundDouble (of_int w * roundDouble x) \<le> 0" by (rule roundDouble_nonpos)
  then have "\<lfloor>roundDouble (of_int w * roundDouble x)\<rfloor> \<le> 0" by (simp add: floor_le_iff)
  then show ?thesis by (simp add: scaleWidth_def x_def)
qed

lemma equal_row_total:
  assumes "\<forall>t \<in> set tiled. width (rect t) = w"
  shows "foldl (\<lambda>sum t. sum + width (rect t)) 0 tiled = int (length tiled) * w"
proof -
  have h: "map (\<lambda>t. width (rect t)) tiled = map (\<lambda>t. w) tiled"
    using assms by (simp add: map_eq_conv)
  show ?thesis by (simp only: foldl_widths h sum_list_const add_0)
qed

lemma equal_row_plan:
  fixes wa :: Rect and tiled :: "WindowState list"
  assumes eq: "\<forall>t \<in> set tiled. width (rect t) = w" and wm: "MIN_WINDOW_WIDTH \<le> w"
    and ne: "tiled \<noteq> []" and small: "width wa < 2 ^ 51"
  defines "N \<equiv> int (length tiled)"
  defines "avail \<equiv> availableWidth wa tiled"
  shows "(N + 1) * MIN_WINDOW_WIDTH \<le> avail \<Longrightarrow>
           plannedNewWidth wa tiled + sum_list (plannedWidths wa tiled) \<le> avail"
    and "avail < (N + 1) * MIN_WINDOW_WIDTH \<Longrightarrow>
           plannedNewWidth wa tiled + sum_list (plannedWidths wa tiled) = (N + 1) * MIN_WINDOW_WIDTH"
proof -
  have Npos: "0 < N" using ne by (simp add: N_def)
  have wpos: "0 < w" using wm by (simp add: MIN_WINDOW_WIDTH_def)
  have total: "foldl (\<lambda>sum t. sum + width (rect t)) 0 tiled = N * w"
    unfolding N_def by (rule equal_row_total[OF eq])
  have avW: "avail \<le> width wa"
    using Npos by (simp add: avail_def availableWidth_def INNER_GAP_def N_def)
  define q where "q = plannedNewWidth wa tiled"
  define v where "v = scaleWidth w (avail - q) (N * w)"
  have qm: "MIN_WINDOW_WIDTH \<le> q" by (simp add: q_def plannedNewWidth_min)
  have cw: "clampedWidths wa tiled = map (\<lambda>t. max MIN_WINDOW_WIDTH v) tiled"
    unfolding clampedWidths_def total
    using eq by (simp add: v_def q_def avail_def)
  have rc: "raisedCount wa tiled = (if v < MIN_WINDOW_WIDTH then length tiled else 0)"
  proof -
    have "filter (\<lambda>t. scaleWidth (width (rect t)) (avail - q) (N * w) < MIN_WINDOW_WIDTH) tiled
          = filter (\<lambda>t. v < MIN_WINDOW_WIDTH) tiled"
      using eq by (intro filter_cong) (simp_all add: v_def)
    then show ?thesis
      unfolding raisedCount_def total by (simp add: q_def avail_def)
  qed
  have sc: "sum_list (clampedWidths wa tiled) = N * max MIN_WINDOW_WIDTH v"
    unfolding cw by (simp add: sum_list_const N_def)
  have vup: "v \<le> (avail - q) div N" if "0 \<le> avail - q"
  proof -
    have "avail - q < 2 ^ 51" using avW small qm by (simp add: MIN_WINDOW_WIDTH_def)
    from scaleWidth_equal_upper[OF that this Npos wpos] show ?thesis by (simp add: v_def)
  qed
  have vneg: "v \<le> 0" if "avail - q \<le> 0"
  proof -
    have "0 < N * w" using Npos wpos by simp
    from scaleWidth_nonpos[OF that this wpos] show ?thesis by (simp add: v_def)
  qed
  {
    assume room: "(N + 1) * MIN_WINDOW_WIDTH \<le> avail"
    have qd: "q = max MIN_WINDOW_WIDTH (avail div (N + 1))"
      by (simp add: q_def plannedNewWidth_def avail_def N_def)
    have "MIN_WINDOW_WIDTH \<le> avail div (N + 1)"
      using room Npos by (simp add: le_div_iff_int mult.commute)
    then have qe: "q = avail div (N + 1)"
      by (simp_all add: qd)
    have "q * (N + 1) \<le> avail"
      using Npos le_div_iff_int[of "N + 1" q avail] by (simp add: qe)
    moreover have "MIN_WINDOW_WIDTH * N \<le> q * N"
      using qm Npos by (simp add: mult_right_mono)
    ultimately have rm: "MIN_WINDOW_WIDTH * N \<le> avail - q"
      by (simp add: algebra_simps)
    have "0 \<le> MIN_WINDOW_WIDTH * N" using Npos by (simp add: MIN_WINDOW_WIDTH_def)
    with rm have r0: "0 \<le> avail - q" by linarith
    have "((avail - q) div N) * N \<le> avail - q"
      using Npos le_div_iff_int[of N "(avail - q) div N" "avail - q"] by simp
    moreover have "v * N \<le> ((avail - q) div N) * N"
      using vup[OF r0] Npos by (simp add: mult_right_mono)
    ultimately have vN: "v * N \<le> avail - q" by linarith
    have mx: "max MIN_WINDOW_WIDTH v * N \<le> avail - q"
      using vN rm by (simp add: max_def mult.commute)
    then have ex: "\<not> 0 < sum_list (clampedWidths wa tiled) + q - avail"
      by (simp add: sc mult.commute)
    have "plannedWidths wa tiled = clampedWidths wa tiled"
      using ex by (simp add: plannedWidths_def Let_def flip: q_def avail_def)
    then have "sum_list (plannedWidths wa tiled) = N * max MIN_WINDOW_WIDTH v"
      by (simp add: sc)
    with mx show "plannedNewWidth wa tiled + sum_list (plannedWidths wa tiled) \<le> avail"
      by (simp add: q_def[symmetric] mult.commute)
  next
    assume tight: "avail < (N + 1) * MIN_WINDOW_WIDTH"
    have qd: "q = max MIN_WINDOW_WIDTH (avail div (N + 1))"
      by (simp add: q_def plannedNewWidth_def avail_def N_def)
    have "avail div (N + 1) < MIN_WINDOW_WIDTH"
      using tight Npos by (simp add: div_less_iff_int mult.commute)
    then have qe: "q = MIN_WINDOW_WIDTH" by (simp add: qd)
    have rl: "avail - q < MIN_WINDOW_WIDTH * N"
      using tight by (simp add: qe algebra_simps)
    have vm: "v < MIN_WINDOW_WIDTH"
    proof (cases "0 \<le> avail - q")
      case True
      from rl have "(avail - q) div N < MIN_WINDOW_WIDTH"
        using Npos by (simp add: div_less_iff_int)
      with vup[OF True] show ?thesis by linarith
    next
      case False
      then have "avail - q \<le> 0" by simp
      from vneg[OF this] show ?thesis by (simp add: MIN_WINDOW_WIDTH_def)
    qed
    have "plannedWidths wa tiled = clampedWidths wa tiled"
      using vm by (simp add: plannedWidths_def Let_def rc)
    then have "sum_list (plannedWidths wa tiled) = N * MIN_WINDOW_WIDTH"
      using vm by (simp add: sc max_def)
    then show "plannedNewWidth wa tiled + sum_list (plannedWidths wa tiled) = (N + 1) * MIN_WINDOW_WIDTH"
      by (simp add: q_def[symmetric] qe algebra_simps)
  }
qed

text \<open>
The plans of the example rows.
\<close>

lemma threeWide_facts:
  "threeWide \<noteq> []" "\<forall>t \<in> set threeWide. width (rect t) = 1136"
  "map (\<lambda>t. width (rect t)) threeWide = [1136, 1136, 1136]" "length threeWide = 3"
  by (simp_all add: threeWide_def wide_def tile_def)

lemma threeWide_plan:
  "insertPlan ultrawide 9 5000 threeWide
     = Some [(2, \<lparr>px = jsInt 8, py = 8, pwidth = jsInt 849, pheight = 1424\<rparr>),
             (3, \<lparr>px = jsInt 865, py = 8, pwidth = jsInt 849, pheight = 1424\<rparr>),
             (4, \<lparr>px = jsInt 1722, py = 8, pwidth = jsInt 849, pheight = 1424\<rparr>),
             (9, \<lparr>px = jsInt 2579, py = 8, pwidth = jsInt 850, pheight = 1424\<rparr>)]"
  by code_simp

lemma nineNarrow_plan:
  "map_option (map (\<lambda>p. pwidth (snd p))) (insertPlan fullHD 12 500 nineNarrow)
     = Some [jsInt 200, jsInt 200, jsInt 200, jsInt 200, jsInt 200, jsInt 200, jsInt 200,
             jsInt 200, jsInt 200, jsInt 200]"
  by code_simp

lemma collapsed_plan:
  "insertPlan fullHD 3 960 collapsed
     = Some [(2, \<lparr>px = jsInt 8, py = 8, pwidth = NaN, pheight = 1064\<rparr>),
             (4, \<lparr>px = NaN, py = 8, pwidth = NaN, pheight = 1064\<rparr>),
             (3, \<lparr>px = NaN, py = 8, pwidth = jsInt 629, pheight = 1064\<rparr>)]"
  by code_simp



section \<open>Lemmas: swap\<close>

lemma getWindow_setWindow_same_fields:
  assumes "getWindow s i = Some e"
  shows "getWindow (setWindow i (noFields\<lparr>p_rect := Some r, p_zone := Some z\<rparr>) s) i
           = Some (e\<lparr>rect := r, zone := z\<rparr>)"
proof -
  from assms have "wid e = i" by (rule getWindow_wid)
  with assms show ?thesis
    by (cases e) (simp add: setWindow_def getWindow_def notifyChange_def Let_def find_mapSet
        noFields_def)
qed

lemma checkForSwap_keeps:
  "draggedWindow (checkForSwap c s d) = draggedWindow d"
  "draggedWindowId (checkForSwap c s d) = draggedWindowId d"
  "dragStartRect (checkForSwap c s d) = dragStartRect d"
  by (simp_all add: checkForSwap_def Let_def split: option.splits)

lemma pollAll_keeps:
  "draggedWindow (pollAll polls d) = draggedWindow d"
  "draggedWindowId (pollAll polls d) = draggedWindowId d"
  "dragStartRect (pollAll polls d) = dragStartRect d"
  unfolding pollAll_def
  by (induction polls arbitrary: d) (simp_all add: checkForSwap_keeps)

lemma checkForSwap_target:
  assumes "potentialSwapTarget (checkForSwap c s d) = Some T"
    and "potentialSwapTarget d = Some T \<Longrightarrow> draggedWindowId d = Some D \<Longrightarrow> T \<noteq> D \<and> D \<noteq> 0"
    and "draggedWindowId d = Some D"
  shows "T \<noteq> D \<and> D \<noteq> 0"
proof (cases "potentialSwapTarget (checkForSwap c s d) = potentialSwapTarget d")
  case True
  with assms show ?thesis by simp
next
  case False
  then have ch: "checkForSwap c s d \<noteq> d" by auto
  from ch assms(3) have "D \<noteq> 0"
    by (auto simp: checkForSwap_def Let_def split: option.splits if_splits)
  moreover from ch assms(1,3) obtain t where
    "find (\<lambda>tiled. wid tiled \<noteq> D \<and> isPointInRect (getCenter c) (rect tiled)) (getTiledWindows s) = Some t"
    "wid t = T"
    by (auto simp: checkForSwap_def Let_def split: option.splits if_splits)
  then have "T \<noteq> D" by (auto simp: find_Some_iff)
  ultimately show ?thesis by simp
qed

lemma pollAll_target:
  assumes "potentialSwapTarget (pollAll polls d) = Some T" "potentialSwapTarget d = None"
    "draggedWindowId d = Some D"
  shows "T \<noteq> D \<and> D \<noteq> 0"
  using assms(1)
proof (induction polls arbitrary: T rule: rev_induct)
  case Nil
  with assms(2) show ?case by (simp add: pollAll_def)
next
  case (snoc p polls)
  have step: "pollAll (polls @ [p]) d = checkForSwap (fst p) (snd p) (pollAll polls d)"
    by (simp add: pollAll_def)
  show ?case
  proof (rule checkForSwap_target[of "fst p" "snd p" "pollAll polls d"])
    show "potentialSwapTarget (checkForSwap (fst p) (snd p) (pollAll polls d)) = Some T"
      using snoc.prems by (simp add: step)
    show "draggedWindowId (pollAll polls d) = Some D"
      by (simp add: pollAll_keeps assms(3))
    show "T \<noteq> D \<and> D \<noteq> 0" if "potentialSwapTarget (pollAll polls d) = Some T"
      using snoc.IH[OF that] .
  qed
qed

lemma swapOnGrabBegin_tiled:
  assumes "getWindow s0 D = Some d0" "isTiled d0"
  shows "swapOnGrabBegin D MOVING True s0 det0 =
           det0\<lparr>draggedWindow := Some D, draggedWindowId := Some D,
                 dragStartRect := Some (rect d0), potentialSwapTarget := None\<rparr>"
  using assms by (simp add: swapOnGrabBegin_def Let_def)

lemma onSwapDetected_found:
  assumes "findMetaWindow env T" "getWindow s D = Some dw" "getWindow s T = Some tw" "T \<noteq> D"
  shows "onSwapDetected env \<lparr>ev_draggedWindow = D, ev_targetWindowId = T,
                              ev_draggedTargetRect = rt, ev_targetNewRect = rd\<rparr> (s, moves)
     = (recalculateNeighbors
          (setWindow T (noFields\<lparr>p_rect := Some rd, p_zone := Some (zone dw)\<rparr>)
             (setWindow D (noFields\<lparr>p_rect := Some rt, p_zone := Some (zone tw)\<rparr>) s)),
        moves @ [(D, rt), (T, rd)])"
  using assms by (simp add: onSwapDetected_def Let_def)

lemma snapped_get:
  "getWindow snapped 2 = Some snappedLeft" "getWindow snapped 4 = Some snappedRight"
  "isTiled snappedLeft" "findMetaWindow desktop234 4"
  by (simp_all add: getWindow_def snapped_def snappedLeft_def snappedRight_def tile_def
      findMetaWindow_def desktop234_def)

lemma snapped_target:
  "potentialSwapTarget (pollAll [(draggedOver, snapped)]
      (swapOnGrabBegin 2 MOVING True snapped idleDetector)) = Some 4"
  by (simp add: pollAll_def swapOnGrabBegin_tiled[OF snapped_get(1,3)] checkForSwap_def
      getTiledWindows_def getCenter_def isPointInRect_def idleDetector_def Let_def)
     (simp add: snapped_def snappedLeft_def snappedRight_def tile_def draggedOver_def
      leftHalf_def rightHalf_def)

section \<open>The claims\<close>

subsection \<open>Resize: a neighbor at the minimum width\<close>




subsection \<open>Planned rectangles and the minimum size\<close>




subsection \<open>Insertion into a row of equal windows\<close>

text \<open>
  C3, as amended. Inserting into a row of \<open>n \<ge> 1\<close> tiled windows of one width, at least
  \<open>MIN_WINDOW_WIDTH\<close>, on a work area of width \<open>W < 2^51\<close> with the configured gap \<open>g\<close>:
  there is a plan of \<open>n + 1\<close> rectangles, each of an integer width of at least
  \<open>MIN_WINDOW_WIDTH\<close>, and the sum of the widths plus \<open>(n + 2) g\<close> is at most \<open>W\<close> exactly
  when the work area has room for \<open>n + 1\<close> windows of minimum width,
  \<open>W - (n + 2) g \<ge> (n + 1) MIN_WINDOW_WIDTH\<close>.
\<close>

theorem insertion_into_equal_row:
  assumes "tiledWindows \<noteq> []" "\<forall>t \<in> set tiledWindows. width (rect t) = w"
    and "MIN_WINDOW_WIDTH \<le> w" and "width workArea < 2 ^ 51"
  shows "\<exists>plan widths. insertPlan workArea insertedWindowId position tiledWindows = Some plan
      \<and> map (\<lambda>p. pwidth (snd p)) plan = map jsInt widths
      \<and> length widths = length tiledWindows + 1
      \<and> (\<forall>v \<in> set widths. MIN_WINDOW_WIDTH \<le> v)
      \<and> (sum_list widths + (int (length tiledWindows) + 2) * INNER_GAP \<le> width workArea
          \<longleftrightarrow> (int (length tiledWindows) + 1) * MIN_WINDOW_WIDTH
                \<le> width workArea - (int (length tiledWindows) + 2) * INNER_GAP)"
proof -
  have "0 < w" using assms(3) by (simp add: MIN_WINDOW_WIDTH_def)
  then have "int (length tiledWindows) * w \<noteq> 0" using assms(1) by simp
  then have total: "foldl (\<lambda>sum t. sum + width (rect t)) 0 tiledWindows \<noteq> 0"
    by (simp add: equal_row_total[OF assms(2)])
  from insertPlan_shape[OF assms(1), of workArea insertedWindowId position] total
  obtain plan k where p: "insertPlan workArea insertedWindowId position tiledWindows = Some plan"
    and ws: "map (\<lambda>p. pwidth (snd p)) plan
          = take k (map jsInt (plannedWidths workArea tiledWindows))
              @ jsInt (plannedNewWidth workArea tiledWindows)
              # drop k (map jsInt (plannedWidths workArea tiledWindows))"
    by blast
  define widths where "widths = take k (plannedWidths workArea tiledWindows)
     @ plannedNewWidth workArea tiledWindows # drop k (plannedWidths workArea tiledWindows)"
  have m: "map (\<lambda>p. pwidth (snd p)) plan = map jsInt widths"
    unfolding ws widths_def by (simp add: take_map drop_map)
  have "length (map (\<lambda>p. pwidth (snd p)) plan) = length widths" unfolding m by simp
  have len: "length widths = length tiledWindows + 1"
    unfolding widths_def by (simp add: plannedWidths_length)
  have sum: "sum_list widths
      = plannedNewWidth workArea tiledWindows + sum_list (plannedWidths workArea tiledWindows)"
    unfolding widths_def by (rule sum_list_take_drop_insert)
  have "set widths = insert (plannedNewWidth workArea tiledWindows)
                        (set (plannedWidths workArea tiledWindows))"
    unfolding widths_def by (rule set_take_drop_insert)
  with plannedNewWidth_min[of workArea tiledWindows] plannedWidths_min[of workArea tiledWindows]
  have mn: "\<forall>v \<in> set widths. MIN_WINDOW_WIDTH \<le> v" by simp
  have av: "availableWidth workArea tiledWindows
      = width workArea - (int (length tiledWindows) + 2) * INNER_GAP"
    by (simp add: availableWidth_def algebra_simps)
  have fit: "sum_list widths + (int (length tiledWindows) + 2) * INNER_GAP \<le> width workArea
          \<longleftrightarrow> (int (length tiledWindows) + 1) * MIN_WINDOW_WIDTH
                \<le> width workArea - (int (length tiledWindows) + 2) * INNER_GAP"
  proof (cases "(int (length tiledWindows) + 1) * MIN_WINDOW_WIDTH
                  \<le> availableWidth workArea tiledWindows")
    case True
    from equal_row_plan(1)[OF assms(2,3,1,4) True] True show ?thesis
      by (simp add: sum av)
  next
    case False
    then have "availableWidth workArea tiledWindows
                 < (int (length tiledWindows) + 1) * MIN_WINDOW_WIDTH" by simp
    from equal_row_plan(2)[OF assms(2,3,1,4) this] False show ?thesis
      by (simp add: sum av)
  qed
  from p m len mn fit show ?thesis by blast
qed

theorem insertion_into_equal_row_witness:
  "threeWide \<noteq> [] \<and> map (\<lambda>t. width (rect t)) threeWide = [1136, 1136, 1136]
   \<and> MIN_WINDOW_WIDTH \<le> 1136 \<and> width ultrawide < 2 ^ 51
   \<and> map_option (map (\<lambda>p. pwidth (snd p))) (insertPlan ultrawide 9 5000 threeWide)
       = Some [jsInt 849, jsInt 849, jsInt 849, jsInt 850]
   \<and> MIN_WINDOW_WIDTH \<le> 849 \<and> MIN_WINDOW_WIDTH \<le> 850
   \<and> sum_list [849, 849, 849, 850] + (3 + 2) * INNER_GAP \<le> width ultrawide
   \<and> (3 + 1) * MIN_WINDOW_WIDTH \<le> width ultrawide - (3 + 2) * INNER_GAP"
proof -
  have a: "MIN_WINDOW_WIDTH \<le> 1136" "width ultrawide < 2 ^ 51"
    by (simp_all add: MIN_WINDOW_WIDTH_def ultrawide_def)
  from insertion_into_equal_row[OF threeWide_facts(1,2) a, of 9 5000]
  obtain plan widths where p: "insertPlan ultrawide 9 5000 threeWide = Some plan"
    and m: "map (\<lambda>p. pwidth (snd p)) plan = map jsInt widths"
    and mn: "\<forall>v \<in> set widths. MIN_WINDOW_WIDTH \<le> v"
    and fit: "sum_list widths + (int (length threeWide) + 2) * INNER_GAP \<le> width ultrawide
          \<longleftrightarrow> (int (length threeWide) + 1) * MIN_WINDOW_WIDTH
                \<le> width ultrawide - (int (length threeWide) + 2) * INNER_GAP"
    by blast
  have pw: "map_option (map (\<lambda>p. pwidth (snd p))) (insertPlan ultrawide 9 5000 threeWide)
       = Some [jsInt 849, jsInt 849, jsInt 849, jsInt 850]"
    by (simp add: threeWide_plan)
  with p m have "map jsInt widths = map jsInt [849, 849, 849, 850]" by simp
  then have w: "widths = [849, 849, 849, 850]"
    by (simp only: inj_map_eq_map[OF inj_jsInt])
  from mn have mins: "MIN_WINDOW_WIDTH \<le> 849" "MIN_WINDOW_WIDTH \<le> 850"
    unfolding w by simp_all
  have room: "(3 + 1) * MIN_WINDOW_WIDTH \<le> width ultrawide - (3 + 2) * INNER_GAP"
    by (simp add: MIN_WINDOW_WIDTH_def ultrawide_def INNER_GAP_def)
  from fit room have "sum_list [849, 849, 849, 850] + (3 + 2) * INNER_GAP \<le> width ultrawide"
    unfolding w threeWide_facts(4) by simp
  with threeWide_facts(1,3) a pw mins room show ?thesis by simp
qed

text \<open>
  C3 as stated fails: inserting into nine windows of width 200 on a 1920 wide work area
  plans ten windows of width 200, 2000 in all, which with the gaps is wider than the
  work area.
\<close>

theorem insertion_overflow_counterexample:
  "map (\<lambda>t. width (rect t)) nineNarrow = [200, 200, 200, 200, 200, 200, 200, 200, 200]
   \<and> MIN_WINDOW_WIDTH \<le> 200
   \<and> (9 * 200 + (9 + 1) * INNER_GAP \<le> width fullHD)
   \<and> map_option (map (\<lambda>p. pwidth (snd p))) (insertPlan fullHD 12 500 nineNarrow)
       = Some [jsInt 200, jsInt 200, jsInt 200, jsInt 200, jsInt 200, jsInt 200, jsInt 200,
               jsInt 200, jsInt 200, jsInt 200]
   \<and> width fullHD < sum_list [200, 200, 200, 200, 200, 200, 200, 200, 200, 200] + (9 + 2) * INNER_GAP"
  by (simp add: nineNarrow_plan)
     (simp add: nineNarrow_def narrow_def tile_def fullHD_def INNER_GAP_def MIN_WINDOW_WIDTH_def)

subsection \<open>Resize: requested rectangles keep the minimum size\<close>

text \<open>
  C4. In a resize tick, whatever the reported rectangle (so whatever the signed deltas)
  and the resize direction: when every neighbor of the resizing window, in all four
  lists, is another window at least \<open>MIN_WINDOW_WIDTH\<close> wide and \<open>MIN_WINDOW_HEIGHT\<close> high,
  every rectangle the tick requests is at least that wide and high, or is the revert of
  the resizing window to its last rectangle.
\<close>

theorem resize_neighbors_keep_minimum:
  assumes "resizingWindow h = Some resizing" "resizingWindowId h = Some resizingId"
    and "lastRect h = Some lastR"
    and "\<forall>d. \<forall>n \<in> set (getNeighbors s resizingId d).
           wid n \<noteq> resizingId
           \<and> width (rect n) \<ge> MIN_WINDOW_WIDTH \<and> height (rect n) \<ge> MIN_WINDOW_HEIGHT"
  shows "\<forall>m \<in> set (snd (snd (handleResizeUpdate env currentRect h (s, [])))).
           (fst m = resizing \<and> snd m = lastR)
           \<or> (width (snd m) \<ge> MIN_WINDOW_WIDTH \<and> height (snd m) \<ge> MIN_WINDOW_HEIGHT)"
proof -
  define P where "P = {k. isPresent s k}"
  have t0: "tickOk resizing resizingId lastR P (s, [])"
    using assms(4) by (simp add: tickOk_def neighborsSized_def sizeOk_def P_def)
  define edges where "edges = getResizeEdges (resizeDirection h)"
  define deltaLeft where "deltaLeft = xpos currentRect - xpos lastR"
  define deltaRight where
    "deltaRight = (xpos currentRect + width currentRect) - (xpos lastR + width lastR)"
  define deltaTop where "deltaTop = ypos currentRect - ypos lastR"
  define deltaBottom where
    "deltaBottom = (ypos currentRect + height currentRect) - (ypos lastR + height lastR)"
  define st1 where "st1 = (if e_right edges \<and> deltaRight \<noteq> 0
     then adjustRightNeighbors env resizing resizingId lastR deltaRight (s, []) else (s, []))"
  define st2 where "st2 = (if e_left edges \<and> deltaLeft \<noteq> 0
     then adjustLeftNeighbors env resizing resizingId lastR deltaLeft st1 else st1)"
  define st3 where "st3 = (if e_bottom edges \<and> deltaBottom \<noteq> 0
     then adjustBottomNeighbors env resizingId deltaBottom st2 else st2)"
  define st4 where "st4 = (if e_top edges \<and> deltaTop \<noteq> 0
     then adjustTopNeighbors env resizingId deltaTop st3 else st3)"
  have t1: "tickOk resizing resizingId lastR P st1"
    unfolding st1_def using t0 by (simp add: adjustRightNeighbors_ok)
  have t2: "tickOk resizing resizingId lastR P st2"
    unfolding st2_def using t1 by (simp add: adjustLeftNeighbors_ok)
  have t3: "tickOk resizing resizingId lastR P st3"
    unfolding st3_def using t2 by (simp add: adjustBottomNeighbors_ok)
  have t4: "tickOk resizing resizingId lastR P st4"
    unfolding st4_def using t3 by (simp add: adjustTopNeighbors_ok)
  have "snd (snd (handleResizeUpdate env currentRect h (s, []))) =
          (if resizingId = 0 then [] else snd st4)"
    unfolding handleResizeUpdate_def assms(1-3) st4_def st3_def st2_def st1_def
      edges_def deltaLeft_def deltaRight_def deltaTop_def deltaBottom_def
    by (simp add: Let_def)
  with t4 have "\<forall>m \<in> set (snd (snd (handleResizeUpdate env currentRect h (s, [])))).
          moveOk resizing lastR m"
    by (simp add: tickOk_def)
  then show ?thesis by (simp add: moveOk_def sizeOk_def)
qed

theorem resize_neighbors_keep_minimum_witness:
  "resizingWindow growingRight = Some 2 \<and> resizingWindowId growingRight = Some 2
   \<and> lastRect growingRight = Some leftHalf
   \<and> getNeighbors threeTiles 2 DRight =
       [tile 3 topRight (emptyNeighbors\<lparr>nleft := [2], nbottom := [4]\<rparr>),
        tile 4 bottomRight (emptyNeighbors\<lparr>nleft := [2], ntop := [3]\<rparr>)]
   \<and> getNeighbors threeTiles 2 DLeft = [] \<and> getNeighbors threeTiles 2 DTop = []
   \<and> getNeighbors threeTiles 2 DBottom = []
   \<and> MIN_WINDOW_WIDTH \<le> width topRight \<and> MIN_WINDOW_HEIGHT \<le> height topRight
   \<and> MIN_WINDOW_WIDTH \<le> width bottomRight \<and> MIN_WINDOW_HEIGHT \<le> height bottomRight
   \<and> snd (snd (handleResizeUpdate threeDesktop grownLeft growingRight (threeTiles, [])))
       = [(2, leftHalf), (4, shrunkBottomRight)]
   \<and> MIN_WINDOW_WIDTH \<le> width shrunkBottomRight
   \<and> MIN_WINDOW_HEIGHT \<le> height shrunkBottomRight"
proof -
  have h: "resizingWindow growingRight = Some 2" "resizingWindowId growingRight = Some 2"
    "lastRect growingRight = Some leftHalf"
    by (simp_all add: growingRight_def)
  have sizes: "MIN_WINDOW_WIDTH \<le> width topRight" "MIN_WINDOW_HEIGHT \<le> height topRight"
    "MIN_WINDOW_WIDTH \<le> width bottomRight" "MIN_WINDOW_HEIGHT \<le> height bottomRight"
    by (simp_all add: topRight_def bottomRight_def MIN_WINDOW_WIDTH_def MIN_WINDOW_HEIGHT_def)
  have nb: "\<forall>d. \<forall>n \<in> set (getNeighbors threeTiles 2 d).
              wid n \<noteq> 2 \<and> MIN_WINDOW_WIDTH \<le> width (rect n) \<and> MIN_WINDOW_HEIGHT \<le> height (rect n)"
  proof
    fix d
    show "\<forall>n \<in> set (getNeighbors threeTiles 2 d).
            wid n \<noteq> 2 \<and> MIN_WINDOW_WIDTH \<le> width (rect n) \<and> MIN_WINDOW_HEIGHT \<le> height (rect n)"
      using sizes by (cases d) (simp_all add: threeTiles_neighbors tile_def)
  qed
  from resize_neighbors_keep_minimum[OF h nb, of threeDesktop grownLeft]
  have "MIN_WINDOW_WIDTH \<le> width shrunkBottomRight
        \<and> MIN_WINDOW_HEIGHT \<le> height shrunkBottomRight"
    by (simp add: threeTiles_tick shrunkBottomRight_def leftHalf_def)
  with h sizes show ?thesis
    by (simp add: threeTiles_neighbors threeTiles_tick)
qed

subsection \<open>Neighbor lists are within tolerance\<close>

text \<open>
  C5. After \<^verbatim>\<open>recalculateNeighbors()\<close>, for tiled windows A and B of the store: when the
  id of B is in the right list of A, the right edge of A is within \<open>EDGE_TOLERANCE\<close> of the
  left edge of B and their vertical extents overlap by at least \<open>NEIGHBOR_OVERLAP_MIN\<close>;
  likewise for the left list, and for the bottom and top lists with the horizontal overlap.
\<close>

theorem neighbors_within_tolerance:
  assumes "wellFormed s"
    and "A \<in> set (windows (recalculateNeighbors s))" "isTiled A"
    and "B \<in> set (windows (recalculateNeighbors s))" "isTiled B"
  shows "(wid B \<in> set (nright (neighbors A)) \<longrightarrow>
            \<bar>getRightEdge (rect A) - xpos (rect B)\<bar> \<le> EDGE_TOLERANCE
            \<and> min (ypos (rect A) + height (rect A)) (ypos (rect B) + height (rect B))
                - max (ypos (rect A)) (ypos (rect B)) \<ge> NEIGHBOR_OVERLAP_MIN)
       \<and> (wid B \<in> set (nleft (neighbors A)) \<longrightarrow>
            \<bar>xpos (rect A) - getRightEdge (rect B)\<bar> \<le> EDGE_TOLERANCE
            \<and> min (ypos (rect A) + height (rect A)) (ypos (rect B) + height (rect B))
                - max (ypos (rect A)) (ypos (rect B)) \<ge> NEIGHBOR_OVERLAP_MIN)
       \<and> (wid B \<in> set (nbottom (neighbors A)) \<longrightarrow>
            \<bar>getBottomEdge (rect A) - ypos (rect B)\<bar> \<le> EDGE_TOLERANCE
            \<and> min (xpos (rect A) + width (rect A)) (xpos (rect B) + width (rect B))
                - max (xpos (rect A)) (xpos (rect B)) \<ge> NEIGHBOR_OVERLAP_MIN)
       \<and> (wid B \<in> set (ntop (neighbors A)) \<longrightarrow>
            \<bar>ypos (rect A) - getBottomEdge (rect B)\<bar> \<le> EDGE_TOLERANCE
            \<and> min (xpos (rect A) + width (rect A)) (xpos (rect B) + width (rect B))
                - max (xpos (rect A)) (xpos (rect B)) \<ge> NEIGHBOR_OVERLAP_MIN)"
  using neighbor_mem_iff[OF assms]
  by (simp add: isRightOf_def isLeftOf_def isAbove_def isBelow_def
      hasVerticalOverlap_def hasHorizontalOverlap_def Let_def)

theorem neighbors_within_tolerance_witness:
  "wellFormed twoTiles
   \<and> tile 1 leftHalf (emptyNeighbors\<lparr>nright := [2]\<rparr>) \<in> set (windows (recalculateNeighbors twoTiles))
   \<and> tile 2 rightHalf (emptyNeighbors\<lparr>nleft := [1]\<rparr>) \<in> set (windows (recalculateNeighbors twoTiles))
   \<and> 2 \<in> set (nright (neighbors (tile 1 leftHalf (emptyNeighbors\<lparr>nright := [2]\<rparr>))))
   \<and> \<bar>getRightEdge leftHalf - xpos rightHalf\<bar> \<le> EDGE_TOLERANCE
   \<and> min (ypos leftHalf + height leftHalf) (ypos rightHalf + height rightHalf)
        - max (ypos leftHalf) (ypos rightHalf) \<ge> NEIGHBOR_OVERLAP_MIN"
  using twoTiles_facts(1-3)
    neighbors_within_tolerance[OF twoTiles_facts(1) twoTiles_facts(2) twoTiles_facts(4)
      twoTiles_facts(3) twoTiles_facts(4)]
  by (simp add: tile_def emptyNeighbors_def)

subsection \<open>Swap\<close>

text \<open>
  C6. A drag of the tiled window D starts with the store \<open>s0\<close>; after any number of polls
  the pending target is T, and the drag ends outside the edge zones with D and T in the
  store \<open>s\<close> and T found on the desktop. Then the swap is committed: D gets the rectangle T
  has in \<open>s\<close>, T gets the rectangle D had at the start of the drag, D gets the zone T had
  in \<open>s\<close> and T the zone D had in \<open>s\<close>; the two moves are requested in that order.
\<close>

theorem swap_exchanges_rect_and_zone:
  assumes "getWindow s0 D = Some d0" "isTiled d0"
    and "det = pollAll polls (swapOnGrabBegin D MOVING True s0 det0)"
    and "potentialSwapTarget det = Some T" "T \<noteq> 0"
    and "getWindow s D = Some dw" "getWindow s T = Some tw"
    and "findMetaWindow env T"
  shows "map_option rect (getWindow (fst (snd (swapOnGrabEnd env D False det (s, moves)))) D)
           = Some (rect tw)
       \<and> map_option rect (getWindow (fst (snd (swapOnGrabEnd env D False det (s, moves)))) T)
           = Some (rect d0)
       \<and> map_option zone (getWindow (fst (snd (swapOnGrabEnd env D False det (s, moves)))) D)
           = Some (zone tw)
       \<and> map_option zone (getWindow (fst (snd (swapOnGrabEnd env D False det (s, moves)))) T)
           = Some (zone dw)
       \<and> snd (snd (swapOnGrabEnd env D False det (s, moves)))
           = moves @ [(D, rect tw), (T, rect d0)]"
proof -
  let ?b = "swapOnGrabBegin D MOVING True s0 det0"
  have b: "draggedWindow ?b = Some D" "draggedWindowId ?b = Some D"
    "dragStartRect ?b = Some (rect d0)" "potentialSwapTarget ?b = None"
    by (simp_all add: swapOnGrabBegin_tiled[OF assms(1,2)])
  have d: "draggedWindow det = Some D" "draggedWindowId det = Some D"
    "dragStartRect det = Some (rect d0)"
    by (simp_all add: assms(3) pollAll_keeps b)
  have ne: "T \<noteq> D \<and> D \<noteq> 0"
    using pollAll_target[of polls ?b T D] assms(3,4) b by simp
  have ev: "performSwap s det = Some \<lparr>ev_draggedWindow = D, ev_targetWindowId = T,
                              ev_draggedTargetRect = rect tw, ev_targetNewRect = rect d0\<rparr>"
    using ne assms(4-7) d by (simp add: performSwap_def)
  define s1 where "s1 = setWindow D (noFields\<lparr>p_rect := Some (rect tw), p_zone := Some (zone tw)\<rparr>) s"
  define s2 where "s2 = setWindow T (noFields\<lparr>p_rect := Some (rect d0), p_zone := Some (zone dw)\<rparr>) s1"
  have res: "snd (swapOnGrabEnd env D False det (s, moves))
     = (recalculateNeighbors s2, moves @ [(D, rect tw), (T, rect d0)])"
    using ne by (simp add: swapOnGrabEnd_def d assms(4) ev Let_def s1_def s2_def
        onSwapDetected_found[OF assms(8) assms(6) assms(7)])
  have t1: "getWindow s1 T = Some tw"
    using ne by (simp add: s1_def getWindow_setWindow_other assms(7))
  have d1: "getWindow s1 D = Some (dw\<lparr>rect := rect tw, zone := zone tw\<rparr>)"
    unfolding s1_def by (rule getWindow_setWindow_same_fields[OF assms(6)])
  have t2: "getWindow s2 T = Some (tw\<lparr>rect := rect d0, zone := zone dw\<rparr>)"
    unfolding s2_def by (rule getWindow_setWindow_same_fields[OF t1])
  have d2: "getWindow s2 D = Some (dw\<lparr>rect := rect tw, zone := zone tw\<rparr>)"
    using ne by (simp add: s2_def getWindow_setWindow_other d1)
  show ?thesis
    by (simp add: res rect_recalculateNeighbors zone_recalculateNeighbors t2 d2
        del: map_option_eq_Some)
qed

theorem swap_exchanges_rect_and_zone_witness:
  "getWindow snapped 2 = Some snappedLeft \<and> isTiled snappedLeft
   \<and> potentialSwapTarget (pollAll [(draggedOver, snapped)]
        (swapOnGrabBegin 2 MOVING True snapped idleDetector)) = Some 4
   \<and> getWindow snapped 4 = Some snappedRight \<and> findMetaWindow desktop234 4
   \<and> map_option rect (getWindow (fst (snd (swapOnGrabEnd desktop234 2 False
          (pollAll [(draggedOver, snapped)] (swapOnGrabBegin 2 MOVING True snapped idleDetector))
          (snapped, [])))) 2) = Some rightHalf
   \<and> map_option rect (getWindow (fst (snd (swapOnGrabEnd desktop234 2 False
          (pollAll [(draggedOver, snapped)] (swapOnGrabBegin 2 MOVING True snapped idleDetector))
          (snapped, [])))) 4) = Some leftHalf
   \<and> map_option zone (getWindow (fst (snd (swapOnGrabEnd desktop234 2 False
          (pollAll [(draggedOver, snapped)] (swapOnGrabBegin 2 MOVING True snapped idleDetector))
          (snapped, [])))) 2) = Some ''right''
   \<and> map_option zone (getWindow (fst (snd (swapOnGrabEnd desktop234 2 False
          (pollAll [(draggedOver, snapped)] (swapOnGrabBegin 2 MOVING True snapped idleDetector))
          (snapped, [])))) 4) = Some ''left''"
proof -
  have z: "(4::nat) \<noteq> 0" by simp
  have f: "rect snappedRight = rightHalf" "rect snappedLeft = leftHalf"
    "zone snappedRight = ''right''" "zone snappedLeft = ''left''"
    by (simp_all add: snappedLeft_def snappedRight_def tile_def)
  from swap_exchanges_rect_and_zone[OF snapped_get(1) snapped_get(3) refl snapped_target z
      snapped_get(1) snapped_get(2) snapped_get(4), of "[]"]
  show ?thesis
    by (simp only: f snapped_get snapped_target simp_thms)
qed

subsection \<open>Equal distribution after removal\<close>

text \<open>
  C7. After a removal, with \<open>n \<ge> 1\<close> tiled windows left (the first of them found on the
  desktop), the \<open>i\<close>-th tiled window in store order gets width
  \<open>floor((W - g (n + 1)) / n)\<close>, \<open>x = workArea.x + g + i (width + g)\<close>, \<open>y = workArea.y + g\<close> and
  height \<open>workArea.height - 2 g\<close>, with \<open>g\<close> the configured gap; removing the middle one
  of three equal windows on a 1920 wide work area leaves two windows of width 948.
\<close>

theorem removal_distributes_equally:
  assumes "wellFormed s" "getTiledWindows s = ts" "ts \<noteq> []"
    and "findMetaWindow env (wid (hd ts))" "i < length ts"
  shows "map_option rect
           (getWindow (fst (redistributeAfterRemoval env workArea (s, moves))) (wid (ts ! i)))
         = Some \<lparr>xpos = xpos workArea + INNER_GAP
                    + int i * ((width workArea - INNER_GAP * (int (length ts) + 1)) div int (length ts)
                               + INNER_GAP),
                 ypos = ypos workArea + INNER_GAP,
                 width = (width workArea - INNER_GAP * (int (length ts) + 1)) div int (length ts),
                 height = height workArea - 2 * INNER_GAP\<rparr>
       \<and> map (\<lambda>w. (wid w, rect w))
           (windows (fst (onWindowRemoved desktop234 fullHD 3 (threeThirds, []))))
         = [(2, \<lparr>xpos = 8, ypos = 8, width = 948, height = 1064\<rparr>),
            (4, \<lparr>xpos = 964, ypos = 8, width = 948, height = 1064\<rparr>)]"
proof -
  have d: "distinct (map wid ts)" using assms(1,2) distinct_tiled by blast
  show ?thesis
    unfolding redistributeAfterRemoval_unfold[OF assms(2-4)]
    by (simp add: Let_def rect_recalculateNeighbors remove_middle_third leftHalf_def rightHalf_def
        foldl_redistribute_rect[OF d assms(5)] mult.commute del: map_option_eq_Some)
qed

theorem removal_distributes_equally_witness:
  "wellFormed afterRemoval
   \<and> getTiledWindows afterRemoval = [tile 2 thirdLeft emptyNeighbors, tile 4 thirdRight emptyNeighbors]
   \<and> findMetaWindow desktop234 2
   \<and> map_option rect (getWindow (fst (redistributeAfterRemoval desktop234 fullHD (afterRemoval, []))) 4)
       = Some \<lparr>xpos = 964, ypos = 8, width = 948, height = 1064\<rparr>"
proof -
  have a: "wellFormed afterRemoval"
    "getTiledWindows afterRemoval = [tile 2 thirdLeft emptyNeighbors, tile 4 thirdRight emptyNeighbors]"
    by (simp_all add: wellFormed_def getTiledWindows_def afterRemoval_def tile_def)
  have b: "findMetaWindow desktop234 (wid (hd [tile 2 thirdLeft emptyNeighbors, tile 4 thirdRight emptyNeighbors]))"
    "findMetaWindow desktop234 2"
    by (simp_all add: findMetaWindow_def desktop234_def tile_def)
  have c: "[tile 2 thirdLeft emptyNeighbors, tile 4 thirdRight emptyNeighbors] \<noteq> []"
    "Suc 0 < length [tile 2 thirdLeft emptyNeighbors, tile 4 thirdRight emptyNeighbors]"
    by simp_all
  from removal_distributes_equally[OF a c(1) b(1) c(2), of fullHD "[]"]
  have "map_option rect (getWindow (fst (redistributeAfterRemoval desktop234 fullHD (afterRemoval, []))) 4)
       = Some \<lparr>xpos = 964, ypos = 8, width = 948, height = 1064\<rparr>"
    by (simp add: tile_def fullHD_def INNER_GAP_def del: map_option_eq_Some)
  with a b(2) show ?thesis by simp
qed

subsection \<open>Snap rectangle of the left half\<close>

text \<open>
  C8. For every work area and gap the rectangle of the left half has width
  \<open>floor((workArea.width - 3 gap) / 2)\<close>, height \<open>workArea.height - 2 gap\<close> and origin
  \<open>(workArea.x + gap, workArea.y + gap)\<close>; the snap zone \<open>left\<close> is that rectangle at the
  configured gap, and on the work area 1920 x 1080 at the origin it is
  \<open>{x:8, y:8, w:948, h:1064}\<close>.
\<close>

theorem left_snap_rect:
  "getLeftHalfRect workArea gap =
     \<lparr>xpos = xpos workArea + gap, ypos = ypos workArea + gap,
      width = (width workArea - 3 * gap) div 2, height = height workArea - 2 * gap\<rparr>
   \<and> calculateSnapRect ''left'' workArea = getLeftHalfRect workArea INNER_GAP
   \<and> calculateSnapRect ''left'' \<lparr>xpos = 0, ypos = 0, width = 1920, height = 1080\<rparr>
       = \<lparr>xpos = 8, ypos = 8, width = 948, height = 1064\<rparr>"
  by (simp add: getLeftHalfRect_def calculateSnapRect_def INNER_GAP_def mult.commute)

subsection \<open>Removing a window\<close>

text \<open>
  C9. \<^verbatim>\<open>removeWindow(id)\<close> with the id present deletes that entry and keeps every other
  entry in place; an entry that is kept has its rectangle, original rectangle, zone and
  tiled flag unchanged, and each of its four neighbor lists is the former list without
  the id, so that no neighbor list contains the id afterwards; one change notification
  is sent. With the id absent the store is returned as it was, notification count
  included.
\<close>

theorem removeWindow_purges:
  "(getWindow s i \<noteq> None \<longrightarrow>
      getWindow (removeWindow i s) i = None
      \<and> map wid (windows (removeWindow i s)) = filter (\<lambda>j. j \<noteq> i) (map wid (windows s))
      \<and> (\<forall>w \<in> set (windows (removeWindow i s)).
            i \<notin> set (nleft (neighbors w)) \<and> i \<notin> set (nright (neighbors w))
            \<and> i \<notin> set (ntop (neighbors w)) \<and> i \<notin> set (nbottom (neighbors w)))
      \<and> (\<forall>j w. j \<noteq> i \<and> getWindow s j = Some w \<longrightarrow>
            (\<exists>w'. getWindow (removeWindow i s) j = Some w'
               \<and> wid w' = wid w \<and> rect w' = rect w \<and> originalRect w' = originalRect w
               \<and> zone w' = zone w \<and> isTiled w' = isTiled w
               \<and> nleft (neighbors w') = filter (\<lambda>k. k \<noteq> i) (nleft (neighbors w))
               \<and> nright (neighbors w') = filter (\<lambda>k. k \<noteq> i) (nright (neighbors w))
               \<and> ntop (neighbors w') = filter (\<lambda>k. k \<noteq> i) (ntop (neighbors w))
               \<and> nbottom (neighbors w') = filter (\<lambda>k. k \<noteq> i) (nbottom (neighbors w))))
      \<and> changes (removeWindow i s) = Suc (changes s))
   \<and> (getWindow s i = None \<longrightarrow> removeWindow i s = s)"
proof (intro conjI impI allI)
  assume p: "getWindow s i \<noteq> None"
  then show "getWindow (removeWindow i s) i = None"
    "map wid (windows (removeWindow i s)) = filter (\<lambda>j. j \<noteq> i) (map wid (windows s))"
    "changes (removeWindow i s) = Suc (changes s)"
    "\<forall>w \<in> set (windows (removeWindow i s)).
            i \<notin> set (nleft (neighbors w)) \<and> i \<notin> set (nright (neighbors w))
            \<and> i \<notin> set (ntop (neighbors w)) \<and> i \<notin> set (nbottom (neighbors w))"
    by (auto simp: removeWindow_def notifyChange_def getWindow_def find_None_iff
        removeFromNeighbors_def filter_map comp_def)
  fix j w
  assume "j \<noteq> i \<and> getWindow s j = Some w"
  then show "\<exists>w'. getWindow (removeWindow i s) j = Some w'
               \<and> wid w' = wid w \<and> rect w' = rect w \<and> originalRect w' = originalRect w
               \<and> zone w' = zone w \<and> isTiled w' = isTiled w
               \<and> nleft (neighbors w') = filter (\<lambda>k. k \<noteq> i) (nleft (neighbors w))
               \<and> nright (neighbors w') = filter (\<lambda>k. k \<noteq> i) (nright (neighbors w))
               \<and> ntop (neighbors w') = filter (\<lambda>k. k \<noteq> i) (ntop (neighbors w))
               \<and> nbottom (neighbors w') = filter (\<lambda>k. k \<noteq> i) (nbottom (neighbors w))"
    by (simp add: getWindow_removeWindow_other[OF _ p])
next
  assume "getWindow s i = None"
  then show "removeWindow i s = s" by (simp add: removeWindow_def)
qed

theorem removeWindow_purges_witness:
  "getWindow threeTiles 3 \<noteq> None
   \<and> getWindow threeTiles 2 = Some (tile 2 leftHalf (emptyNeighbors\<lparr>nright := [3, 4]\<rparr>))
   \<and> removeWindow 3 threeTiles
       = \<lparr>windows = [tile 2 leftHalf (emptyNeighbors\<lparr>nright := [4]\<rparr>),
                     tile 4 bottomRight (emptyNeighbors\<lparr>nleft := [2]\<rparr>)],
          changes = 1\<rparr>
   \<and> getWindow (removeWindow 3 threeTiles) 2 = Some (tile 2 leftHalf (emptyNeighbors\<lparr>nright := [4]\<rparr>))
   \<and> getWindow threeTiles 7 = None
   \<and> removeWindow 7 threeTiles = threeTiles"
  using removeWindow_purges[of threeTiles 3] removeWindow_purges[of threeTiles 7]
  by (simp add: removeWindow_def getWindow_def removeFromNeighbors_def notifyChange_def
      threeTiles_def tile_def emptyNeighbors_def)

subsection \<open>Neighbor lists are symmetric\<close>

text \<open>
  C10. After \<^verbatim>\<open>recalculateNeighbors()\<close> the neighbor lists of tiled windows are
  symmetric: B is in the right list of A exactly when A is in the left list of B, and B
  is in the bottom list of A exactly when A is in the top list of B.
\<close>

theorem neighbors_symmetric:
  assumes "wellFormed s"
    and "A \<in> set (windows (recalculateNeighbors s))" "isTiled A"
    and "B \<in> set (windows (recalculateNeighbors s))" "isTiled B"
  shows "(wid B \<in> set (nright (neighbors A)) \<longleftrightarrow> wid A \<in> set (nleft (neighbors B)))
       \<and> (wid B \<in> set (nbottom (neighbors A)) \<longleftrightarrow> wid A \<in> set (ntop (neighbors B)))"
  using neighbor_mem_iff[OF assms] neighbor_mem_iff[OF assms(1) assms(4,5) assms(2,3)]
  by (simp add: isRightOf_isLeftOf isBelow_isAbove)

theorem neighbors_symmetric_witness:
  "wellFormed twoTiles
   \<and> tile 1 leftHalf (emptyNeighbors\<lparr>nright := [2]\<rparr>) \<in> set (windows (recalculateNeighbors twoTiles))
   \<and> tile 2 rightHalf (emptyNeighbors\<lparr>nleft := [1]\<rparr>) \<in> set (windows (recalculateNeighbors twoTiles))
   \<and> 2 \<in> set (nright (neighbors (tile 1 leftHalf (emptyNeighbors\<lparr>nright := [2]\<rparr>))))
   \<and> 1 \<in> set (nleft (neighbors (tile 2 rightHalf (emptyNeighbors\<lparr>nleft := [1]\<rparr>))))"
  using twoTiles_facts(1-3)
    neighbors_symmetric[OF twoTiles_facts(1) twoTiles_facts(2) twoTiles_facts(4)
      twoTiles_facts(3) twoTiles_facts(4)]
  by (simp add: tile_def emptyNeighbors_def)

end
